theory Spec2Isabelle
  imports Complex_Main "HOL-Library.Multiset"
begin

section \<open>Strings and records\<close>

text \<open>
  A JavaScript string is a sequence of UTF-16 code units; a code unit is modelled by its
  number. \<open>js\<close> turns an ASCII literal into such a string.
\<close>

type_synonym jsstring = "nat list"

definition js :: "string \<Rightarrow> jsstring" where
  "js s = map of_char s"

text \<open>
  \<^verbatim>\<open>interface JobRecord\<close> of \<^verbatim>\<open>types.ts\<close>. The field \<^verbatim>\<open>id\<close> is named \<open>id_num\<close>
  (\<open>id\<close> is the identity function of HOL). A \<^verbatim>\<open>number\<close> is an IEEE 754 double; its finite
  values are rational numbers, so \<^verbatim>\<open>wage: number | null\<close> is a rational or \<open>None\<close>. The
  comparisons of numbers are exact. An addition or a division of two numbers yields the
  exact result rounded to a double; that rounding is the function \<open>fl\<close> which \<open>avgWage\<close>
  takes from the host.
\<close>

record JobRecord =
  id_num :: int
  jobTitle :: jsstring
  employer :: jsstring
  location :: jsstring
  datePosted :: jsstring
  status :: jsstring
  wage :: "rat option"
  category :: jsstring
  occupationName :: jsstring
  soc :: jsstring
  url :: jsstring

section \<open>Statistics helpers\<close>

text \<open>\<^verbatim>\<open>r.wage != null && r.wage > 0\<close>\<close>

definition has_wage :: "JobRecord \<Rightarrow> bool" where
  "has_wage r = (case wage r of None \<Rightarrow> False | Some w \<Rightarrow> w > 0)"

text \<open>\<^verbatim>\<open>r.wage!\<close> inside an addition: \<^verbatim>\<open>null\<close> would count as \<open>0\<close>.\<close>

definition wage_num :: "JobRecord \<Rightarrow> rat" where
  "wage_num r = (case wage r of None \<Rightarrow> 0 | Some w \<Rightarrow> w)"

text \<open>\<^verbatim>\<open>Math.round\<close>, which is exact: the nearest integer, a half rounded up.\<close>

definition Math_round :: "rat \<Rightarrow> int" where
  "Math_round x = \<lfloor>x + 1 / 2\<rfloor>"

text \<open>
  \<^verbatim>\<open>
  function avgWage(arr: JobRecord[]): number {
    const withWage = arr.filter((r) => r.wage != null && r.wage > 0)
    if (withWage.length === 0) return 0
    return Math.round(withWage.reduce((s, r) => s + r.wage!, 0) / withWage.length)
  }
  \<close>
  \<open>fl\<close> rounds the exact result of each addition and of the division to a double.
\<close>

definition avgWage :: "(rat \<Rightarrow> rat) \<Rightarrow> JobRecord list \<Rightarrow> int" where
  "avgWage fl arr =
     (let withWage = filter has_wage arr
      in if length withWage = 0 then 0
         else Math_round (fl (foldl (\<lambda>s r. fl (s + wage_num r)) 0 withWage
                              / of_nat (length withWage))))"

text \<open>
  The mean of the wages that are present and above 0, as \<open>avgWage\<close> computes it before
  \<^verbatim>\<open>Math.round\<close>, and the same mean in exact arithmetic.
\<close>

definition double_mean :: "(rat \<Rightarrow> rat) \<Rightarrow> JobRecord list \<Rightarrow> rat" where
  "double_mean fl arr =
     fl (foldl (\<lambda>s r. fl (s + wage_num r)) 0 (filter has_wage arr)
         / of_nat (length (filter has_wage arr)))"

definition exact_mean :: "JobRecord list \<Rightarrow> rat" where
  "exact_mean arr =
     sum_list (map wage_num (filter has_wage arr)) / of_nat (length (filter has_wage arr))"

text \<open>
  Two properties of the rounding to the nearest double: it keeps the order, and it leaves
  a value \<open>k / 2 ^ j\<close> as it is when \<open>k\<close> fits the 53 bits of the significand and the
  exponent is small.
\<close>

definition double_rounding :: "(rat \<Rightarrow> rat) \<Rightarrow> bool" where
  "double_rounding fl \<longleftrightarrow>
     (\<forall>x y. x \<le> y \<longrightarrow> fl x \<le> fl y) \<and>
     (\<forall>k j. \<bar>k\<bar> \<le> 2 ^ 53 \<and> j \<le> 64 \<longrightarrow> fl (of_int k / 2 ^ j) = of_int k / 2 ^ j)"

text \<open>Every wage that is present and above 0 is a whole number.\<close>

definition whole_wages :: "JobRecord list \<Rightarrow> bool" where
  "whole_wages arr \<longleftrightarrow> (\<forall>r\<in>set arr. has_wage r \<longrightarrow> wage_num r \<in> \<int>)"

section \<open>String operations of the host\<close>

text \<open>
  White space and line terminators of ECMAScript, as \<^verbatim>\<open>\s\<close> in a regular expression and
  \<^verbatim>\<open>String.prototype.trim\<close> read them.
\<close>

definition is_space :: "nat \<Rightarrow> bool" where
  "is_space c \<longleftrightarrow>
     (9 \<le> c \<and> c \<le> 13) \<or> c = 32 \<or> c = 160 \<or> c = 5760 \<or> (8192 \<le> c \<and> c \<le> 8202) \<or>
     c = 8232 \<or> c = 8233 \<or> c = 8239 \<or> c = 8287 \<or> c = 12288 \<or> c = 65279"

definition trim :: "jsstring \<Rightarrow> jsstring" where
  "trim s = rev (dropWhile is_space (rev (dropWhile is_space s)))"

text \<open>\<^verbatim>\<open>hay.includes(needle)\<close>: \<open>needle\<close> occurs in \<open>hay\<close> as a contiguous run.\<close>

fun starts_with :: "jsstring \<Rightarrow> jsstring \<Rightarrow> bool" where
  "starts_with hay [] = True"
| "starts_with [] (c # cs) = False"
| "starts_with (h # hs) (c # cs) = (h = c \<and> starts_with hs cs)"

fun str_includes :: "jsstring \<Rightarrow> jsstring \<Rightarrow> bool" where
  "str_includes [] needle = (needle = [])"
| "str_includes (h # hs) needle = (starts_with (h # hs) needle \<or> str_includes hs needle)"

text \<open>
  The relational operators on two strings compare code unit by code unit; a proper
  prefix is smaller.
\<close>

fun str_lt :: "jsstring \<Rightarrow> jsstring \<Rightarrow> bool" where
  "str_lt [] [] = False"
| "str_lt [] (b # bs) = True"
| "str_lt (a # as) [] = False"
| "str_lt (a # as) (b # bs) = (a < b \<or> (a = b \<and> str_lt as bs))"

definition str_ge :: "jsstring \<Rightarrow> jsstring \<Rightarrow> bool" where
  "str_ge a b = (\<not> str_lt a b)"

definition str_le :: "jsstring \<Rightarrow> jsstring \<Rightarrow> bool" where
  "str_le a b = (\<not> str_lt b a)"

section \<open>Filter pipeline\<close>

text \<open>
  A \<^verbatim>\<open>Set<string>\<close> read for its members only is a set; one whose order is read is a list
  without repetition, in insertion order (\<open>set_add\<close>).
\<close>

definition set_add :: "'a \<Rightarrow> 'a list \<Rightarrow> 'a list" where
  "set_add x s = (if x \<in> set s then s else s @ [x])"

text \<open>
  \<^verbatim>\<open>
  function getUniqueValues(data: JobRecord[], field: keyof JobRecord): string[] {
    const set = new Set<string>()
    for (const r of data) {
      const val = r[field]
      if (val != null && String(val).trim() !== '') set.add(String(val).trim())
    }
    return Array.from(set).sort((a, b) => a.localeCompare(b))
  }
  \<close>
  The field is a string field, given by its selector. The final sort by the collation of
  the host permutes the list; its callers read the length and the members only, so the
  list is left in insertion order.
\<close>

definition getUniqueValues :: "JobRecord list \<Rightarrow> (JobRecord \<Rightarrow> jsstring) \<Rightarrow> jsstring list" where
  "getUniqueValues data field =
     foldl (\<lambda>s r. let val = field r in if trim val \<noteq> [] then set_add (trim val) s else s) [] data"

text \<open>The state of the filter toolbar (the \<^verbatim>\<open>useState\<close> cells of \<^verbatim>\<open>App\<close>).\<close>

record FilterState =
  activeCategory :: "jsstring option"
  selectedEmployers :: "jsstring set"
  selectedLocations :: "jsstring set"
  selectedStatuses :: "jsstring set"
  wageFilter :: jsstring
  dateFrom :: jsstring
  dateTo :: jsstring
  searchText :: jsstring

text \<open>The \<^verbatim>\<open>switch (wageFilter)\<close>; a tag that no case names leaves the data as it is.\<close>

definition wage_switch :: "jsstring \<Rightarrow> JobRecord list \<Rightarrow> JobRecord list" where
  "wage_switch tag data =
     (if tag = js ''listed'' then
        filter (\<lambda>j. case wage j of None \<Rightarrow> False | Some w \<Rightarrow> w > 0) data
      else if tag = js ''unlisted'' then
        filter (\<lambda>j. case wage j of None \<Rightarrow> True | Some w \<Rightarrow> w = 0) data
      else if tag = js ''150k+'' then
        filter (\<lambda>j. case wage j of None \<Rightarrow> False | Some w \<Rightarrow> w \<ge> 150000) data
      else if tag = js ''100k-150k'' then
        filter (\<lambda>j. case wage j of None \<Rightarrow> False | Some w \<Rightarrow> w \<ge> 100000 \<and> w < 150000) data
      else if tag = js ''50k-100k'' then
        filter (\<lambda>j. case wage j of None \<Rightarrow> False | Some w \<Rightarrow> w \<ge> 50000 \<and> w < 100000) data
      else if tag = js ''under50k'' then
        filter (\<lambda>j. case wage j of None \<Rightarrow> False | Some w \<Rightarrow> w > 0 \<and> w < 50000) data
      else data)"

text \<open>
  \<^verbatim>\<open>filteredJobs\<close> of \<^verbatim>\<open>App\<close>, as a function of the record store and the filter state.
  \<open>lc\<close> is \<^verbatim>\<open>String.prototype.toLowerCase\<close> of the host. A category that is
  \<^verbatim>\<open>null\<close> or the empty string, an empty date bound and a search text that trims to the
  empty string are falsy and skip their filter.
\<close>

definition filteredJobs ::
  "(jsstring \<Rightarrow> jsstring) \<Rightarrow> JobRecord list \<Rightarrow> FilterState \<Rightarrow> JobRecord list" where
  "filteredJobs lc jobs st =
     (let allEmployers = getUniqueValues jobs employer;
          allLocations = getUniqueValues jobs location;
          allStatuses = getUniqueValues jobs status;
          data = jobs;
          data = (case activeCategory st of
                    None \<Rightarrow> data
                  | Some c \<Rightarrow> if c \<noteq> [] then filter (\<lambda>j. category j = c) data else data);
          data = (if card (selectedEmployers st) < length allEmployers
                  then filter (\<lambda>j. employer j \<in> selectedEmployers st) data else data);
          data = (if card (selectedLocations st) < length allLocations
                  then filter (\<lambda>j. location j \<in> selectedLocations st) data else data);
          data = (if card (selectedStatuses st) < length allStatuses
                  then filter (\<lambda>j. status j \<in> selectedStatuses st) data else data);
          data = (if wageFilter st \<noteq> js ''all'' then wage_switch (wageFilter st) data else data);
          data = (if dateFrom st \<noteq> []
                  then filter (\<lambda>j. str_ge (datePosted j) (dateFrom st)) data else data);
          data = (if dateTo st \<noteq> []
                  then filter (\<lambda>j. str_le (datePosted j) (dateTo st)) data else data);
          data = (if trim (searchText st) \<noteq> []
                  then (let q = lc (searchText st)
                        in filter (\<lambda>j. str_includes (lc (jobTitle j)) q \<or>
                                        str_includes (lc (employer j)) q \<or>
                                        str_includes (lc (location j)) q) data)
                  else data)
      in data)"

text \<open>
  The initial state of \<^verbatim>\<open>App\<close>: no category, every inclusion set filled from
  \<^verbatim>\<open>getUniqueValues\<close>, \<^verbatim>\<open>wageFilter = 'all'\<close>, empty date bounds, empty search text.
\<close>

definition initial_state :: "JobRecord list \<Rightarrow> FilterState" where
  "initial_state jobs =
     \<lparr>activeCategory = None,
      selectedEmployers = set (getUniqueValues jobs employer),
      selectedLocations = set (getUniqueValues jobs location),
      selectedStatuses = set (getUniqueValues jobs status),
      wageFilter = js ''all'', dateFrom = [], dateTo = [], searchText = []\<rparr>"

text \<open>
  Every dimension of the state is "no restriction": no active category, each inclusion
  set the full set of distinct values, no wage band, no date bound, a blank query.
\<close>

definition no_restriction :: "JobRecord list \<Rightarrow> FilterState \<Rightarrow> bool" where
  "no_restriction jobs st \<longleftrightarrow>
     (activeCategory st = None \<or> activeCategory st = Some []) \<and>
     selectedEmployers st = set (getUniqueValues jobs employer) \<and>
     selectedLocations st = set (getUniqueValues jobs location) \<and>
     selectedStatuses st = set (getUniqueValues jobs status) \<and>
     wageFilter st = js ''all'' \<and> dateFrom st = [] \<and> dateTo st = [] \<and>
     trim (searchText st) = []"


text \<open>A record with the given wage; the other fields are fixed.\<close>

definition job_with_wage :: "int \<Rightarrow> rat option \<Rightarrow> JobRecord" where
  "job_with_wage i w =
     \<lparr>id_num = i, jobTitle = js ''Engineer'', employer = js ''Oracle'',
      location = js ''Phoenix'', datePosted = js ''2026-02-01'', status = js ''Active'',
      wage = w, category = js ''Software Developers'', occupationName = js ''Developers'',
      soc = js ''15-1252'', url = js ''u''\<rparr>"

definition wage_sample :: "JobRecord list" where
  "wage_sample =
     [job_with_wage 1 (Some 90000), job_with_wage 2 (Some 120000),
      job_with_wage 3 (Some 150000), job_with_wage 4 None]"

text \<open>Whole wages whose mean, 120000 and two thirds, is no whole number.\<close>

definition uneven_wages :: "JobRecord list" where
  "uneven_wages =
     [job_with_wage 1 (Some 90000), job_with_wage 2 (Some 120001),
      job_with_wage 3 (Some 150001), job_with_wage 4 None, job_with_wage 5 (Some 0)]"

text \<open>Lower case of an ASCII letter; every other code unit is left as it is.\<close>

definition to_lower_unit :: "nat \<Rightarrow> nat" where
  "to_lower_unit c = (if 65 \<le> c \<and> c \<le> 90 then c + 32 else c)"

section \<open>Counting maps and rankings\<close>

text \<open>
  A \<^verbatim>\<open>Map<string, number>\<close> is a list of (key, value) pairs without repeated keys, in
  insertion order, which is the order \<^verbatim>\<open>entries()\<close> yields. \<^verbatim>\<open>set\<close> on a present key keeps
  the position of the key; on a new key it appends.
\<close>

fun map_set :: "'k \<Rightarrow> 'v \<Rightarrow> ('k \<times> 'v) list \<Rightarrow> ('k \<times> 'v) list" where
  "map_set k v [] = [(k, v)]"
| "map_set k v ((k', v') # m) = (if k' = k then (k, v) # m else (k', v') # map_set k v m)"

text \<open>\<^verbatim>\<open>(counts.get(k) || 0)\<close>\<close>

definition get_or_0 :: "('k \<times> nat) list \<Rightarrow> 'k \<Rightarrow> nat" where
  "get_or_0 m k = (case map_of m k of None \<Rightarrow> 0 | Some c \<Rightarrow> c)"

text \<open>
  \<^verbatim>\<open>for (const j of data) counts.set(j.employer, (counts.get(j.employer) || 0) + 1)\<close>,
  for any key function.
\<close>

definition count_by :: "('a \<Rightarrow> 'k) \<Rightarrow> 'a list \<Rightarrow> ('k \<times> nat) list" where
  "count_by f data = foldl (\<lambda>counts j. map_set (f j) (get_or_0 counts (f j) + 1) counts) [] data"

text \<open>
  \<^verbatim>\<open>.sort((a, b) => b[1] - a[1])\<close>: \<^verbatim>\<open>Array.prototype.sort\<close> is stable, and the stable
  arrangement of a list by a key is unique; here the key is the negated count.
\<close>

definition sort_count_desc :: "('k \<times> nat) list \<Rightarrow> ('k \<times> nat) list" where
  "sort_count_desc m = sort_key (\<lambda>p. - int (snd p)) m"

text \<open>
  \<^verbatim>\<open>
  const topEmployers = useMemo(() => {
    const counts = new Map<string, number>()
    for (const j of data) counts.set(j.employer, (counts.get(j.employer) || 0) + 1)
    return Array.from(counts.entries())
      .sort((a, b) => b[1] - a[1])
      .slice(0, 8)
  }, [data])
  \<close>
\<close>

definition employerRanking :: "JobRecord list \<Rightarrow> (jsstring \<times> nat) list" where
  "employerRanking data = sort_count_desc (count_by employer data)"

definition topEmployers :: "JobRecord list \<Rightarrow> (jsstring \<times> nat) list" where
  "topEmployers data = take 8 (employerRanking data)"

text \<open>The position at which a value first occurs in a list (its length, if nowhere).\<close>

fun first_index :: "'a \<Rightarrow> 'a list \<Rightarrow> nat" where
  "first_index x [] = 0"
| "first_index x (y # ys) = (if x = y then 0 else Suc (first_index x ys))"

text \<open>The number of postings of an employer in a subset.\<close>

definition postings_of :: "jsstring \<Rightarrow> JobRecord list \<Rightarrow> nat" where
  "postings_of e data = length (filter (\<lambda>j. employer j = e) data)"

text \<open>A record of the given employer; the other fields are fixed.\<close>

definition job_of :: "int \<Rightarrow> string \<Rightarrow> JobRecord" where
  "job_of i e =
     \<lparr>id_num = i, jobTitle = js ''Engineer'', employer = js e,
      location = js ''Phoenix'', datePosted = js ''2026-02-01'', status = js ''Active'',
      wage = None, category = js ''Software Developers'', occupationName = js ''Developers'',
      soc = js ''15-1252'', url = js ''u''\<rparr>"

definition employer_sample :: "JobRecord list" where
  "employer_sample =
     [job_of 1 ''Intel'', job_of 2 ''Oracle'', job_of 3 ''Amazon'', job_of 4 ''Oracle'',
      job_of 5 ''Intel'', job_of 6 ''Oracle'', job_of 7 ''Amazon'']"

definition many_employers :: "JobRecord list" where
  "many_employers =
     employer_sample @
     [job_of 8 ''Google'', job_of 9 ''Honeywell'', job_of 10 ''Boeing'', job_of 11 ''Wells Fargo'',
      job_of 12 ''Banner'', job_of 13 ''Dell'', job_of 14 ''Google'']"

section \<open>Dates of the host\<close>

text \<open>
  The \<^verbatim>\<open>Date\<close> object counts time in milliseconds from 1970-01-01T00:00Z in the proleptic
  Gregorian calendar. \<open>days_from_civil\<close> is the day number of a calendar date and
  \<open>civil_from_days\<close> the calendar date of a day number (year, month, day of month).
\<close>

definition days_from_civil :: "int \<Rightarrow> int \<Rightarrow> int \<Rightarrow> int" where
  "days_from_civil y m d =
     (let y' = (if m \<le> 2 then y - 1 else y);
          era = y' div 400;
          yoe = y' - era * 400;
          mp = (if m > 2 then m - 3 else m + 9);
          doy = (153 * mp + 2) div 5 + d - 1;
          doe = yoe * 365 + yoe div 4 - yoe div 100 + doy
      in era * 146097 + doe - 719468)"

definition civil_from_days :: "int \<Rightarrow> int \<times> int \<times> int" where
  "civil_from_days z0 =
     (let z = z0 + 719468;
          era = z div 146097;
          doe = z - era * 146097;
          yoe = (doe - doe div 1460 + doe div 36524 - doe div 146096) div 365;
          y = yoe + era * 400;
          doy = doe - (365 * yoe + yoe div 4 - yoe div 100);
          mp = (5 * doy + 2) div 153;
          d = doy - (153 * mp + 2) div 5 + 1;
          m = (if mp < 10 then mp + 3 else mp - 9)
      in (if m \<le> 2 then y + 1 else y, m, d))"

text \<open>The decimal digits of a number, the lowest \<open>n\<close> of them, as code units.\<close>

fun pad :: "nat \<Rightarrow> nat \<Rightarrow> jsstring" where
  "pad 0 k = []"
| "pad (Suc n) k = pad n (k div 10) @ [48 + k mod 10]"

text \<open>
  \<^verbatim>\<open>new Date(ms).toISOString().slice(0, 10)\<close>: the date in UTC. A year from 0 to 9999 is
  written with four digits, any other year with a sign and six digits, so that the first
  ten code units then end inside the month.
\<close>

definition iso_date :: "int \<Rightarrow> jsstring" where
  "iso_date ms =
     (case civil_from_days (ms div 86400000) of
        (y, m, d) \<Rightarrow>
          take 10
            ((if 0 \<le> y \<and> y \<le> 9999 then pad 4 (nat y)
              else (if y < 0 then 45 else 43) # pad 6 (nat \<bar>y\<bar>))
             @ [45] @ pad 2 (nat m) @ [45] @ pad 2 (nat d)))"

text \<open>
  The time zone of the host: \<open>zone day\<close> is the number of minutes by which local time is
  ahead of UTC at local midnight of the day with that day number. The offsets of the
  time zones in use lie strictly within a day. \<open>local_midnight\<close> is the time value of local
  midnight of a day, as \<^verbatim>\<open>new Date('2026-02-27T00:00:00')\<close> and \<^verbatim>\<open>setDate\<close> produce it.
\<close>

definition local_midnight :: "(int \<Rightarrow> int) \<Rightarrow> int \<Rightarrow> int" where
  "local_midnight zone day = day * 86400000 - zone day * 60000"

section \<open>Posting freshness\<close>

text \<open>\<^verbatim>\<open>const today = new Date('2026-02-27T00:00:00')\<close>: its local day and its time value.\<close>

definition today_day :: int where
  "today_day = days_from_civil 2026 2 27"

definition today :: "(int \<Rightarrow> int) \<Rightarrow> int" where
  "today zone = local_midnight zone today_day"

text \<open>
  The \<^verbatim>\<open>ranges\<close> table: label and \<^verbatim>\<open>maxDays\<close>, \<open>None\<close> for \<^verbatim>\<open>Infinity\<close>. The colour fields
  take no part in the counts. The dash of the labels is U+2013.
\<close>

definition ranges :: "(jsstring \<times> nat option) list" where
  "ranges =
     [(js ''Last 5 days'', Some 5),
      (js ''6'' @ [8211] @ js ''10 days'', Some 10),
      (js ''11'' @ [8211] @ js ''30 days'', Some 30),
      (js ''31'' @ [8211] @ js ''60 days'', Some 60),
      (js ''60+ days'', None)]"

text \<open>
  \<^verbatim>\<open>cutoff.setDate(cutoff.getDate() - r.maxDays); cutoff.toISOString().slice(0, 10)\<close>:
  local midnight \<open>maxDays\<close> calendar days before today, read in UTC.
\<close>

definition cutoffStr :: "(int \<Rightarrow> int) \<Rightarrow> nat \<Rightarrow> jsstring" where
  "cutoffStr zone maxDays = iso_date (local_midnight zone (today_day - int maxDays))"

text \<open>
  \<^verbatim>\<open>prevMax > 0 ? new Date(today.getTime() - prevMax * 86400000).toISOString().slice(0, 10) : ''\<close>
\<close>

definition prevStr :: "(int \<Rightarrow> int) \<Rightarrow> nat \<Rightarrow> jsstring" where
  "prevStr zone prevMax =
     (if prevMax > 0 then iso_date (today zone - int prevMax * 86400000) else [])"

text \<open>
  The body of \<^verbatim>\<open>ranges.map\<close>, with the variable \<^verbatim>\<open>remaining\<close> passed along. \<open>prevMax\<close> is
  \<^verbatim>\<open>ranges[ranges.indexOf(r) - 1]?.maxDays ?? 0\<close>, the \<^verbatim>\<open>maxDays\<close> of the range before;
  \<^verbatim>\<open>Infinity\<close> stands at the end of the table only, so \<open>prevMax\<close> is a number wherever it
  is read. Each range yields its label, its \<^verbatim>\<open>maxDays\<close> and the records it counts
  (\<^verbatim>\<open>matching\<close>, or all of \<^verbatim>\<open>remaining\<close> for the last range).
  \<^verbatim>\<open>
  if (r.maxDays === Infinity) {
    count = remaining.length
    remaining = []
  } else {
    const cutoffStr = cutoff.toISOString().slice(0, 10)
    const prevStr = prevMax > 0 ? ... : ''
    const matching = remaining.filter((j) => {
      if (prevMax === 0) return j.datePosted >= cutoffStr
      return j.datePosted >= cutoffStr && j.datePosted < prevStr
    })
    count = matching.length
    remaining = remaining.filter((j) => !matching.includes(j))
  }
  \<close>
\<close>

fun freshness_loop ::
  "(int \<Rightarrow> int) \<Rightarrow> nat \<Rightarrow> (jsstring \<times> nat option) list \<Rightarrow> JobRecord list
     \<Rightarrow> (jsstring \<times> nat option \<times> JobRecord list) list" where
  "freshness_loop zone prevMax [] remaining = []"
| "freshness_loop zone prevMax ((label, None) # rs) remaining =
     (label, None, remaining) # freshness_loop zone prevMax rs []"
| "freshness_loop zone prevMax ((label, Some maxDays) # rs) remaining =
     (let matching =
            filter (\<lambda>j. if prevMax = 0 then str_ge (datePosted j) (cutoffStr zone maxDays)
                        else str_ge (datePosted j) (cutoffStr zone maxDays) \<and>
                             str_lt (datePosted j) (prevStr zone prevMax)) remaining
      in (label, Some maxDays, matching)
         # freshness_loop zone maxDays rs (filter (\<lambda>j. j \<notin> set matching) remaining))"

text \<open>The records each range counts, and \<^verbatim>\<open>buckets\<close>: label, \<^verbatim>\<open>maxDays\<close> and count.\<close>

definition freshness_split :: "(int \<Rightarrow> int) \<Rightarrow> JobRecord list \<Rightarrow> JobRecord list list" where
  "freshness_split zone data = map (\<lambda>(label, maxDays, ms). ms) (freshness_loop zone 0 ranges data)"

definition PostingFreshness ::
  "(int \<Rightarrow> int) \<Rightarrow> JobRecord list \<Rightarrow> (jsstring \<times> nat option \<times> nat) list" where
  "PostingFreshness zone data =
     map (\<lambda>(label, maxDays, ms). (label, maxDays, length ms)) (freshness_loop zone 0 ranges data)"

definition bucket_counts :: "(int \<Rightarrow> int) \<Rightarrow> JobRecord list \<Rightarrow> nat list" where
  "bucket_counts zone data = map (\<lambda>(label, maxDays, count). count) (PostingFreshness zone data)"

text \<open>A record posted on the given date; the other fields are fixed.\<close>

definition job_on :: "int \<Rightarrow> string \<Rightarrow> JobRecord" where
  "job_on i d =
     \<lparr>id_num = i, jobTitle = js ''Engineer'', employer = js ''Oracle'',
      location = js ''Phoenix'', datePosted = js d, status = js ''Active'',
      wage = None, category = js ''Software Developers'', occupationName = js ''Developers'',
      soc = js ''15-1252'', url = js ''u''\<rparr>"

text \<open>Phoenix: seven hours behind UTC all year.\<close>

definition phoenix :: "int \<Rightarrow> int" where
  "phoenix day = - 420"

text \<open>
  The counts of a subset between four date strings \<open>c5 > c10 > c30 > c60\<close>: from \<open>c5\<close> on,
  from \<open>c10\<close> to before \<open>c5\<close>, from \<open>c30\<close> to before \<open>c10\<close>, from \<open>c60\<close> to before
  \<open>c30\<close>, and before \<open>c60\<close>.
\<close>

definition edge_counts ::
  "jsstring \<Rightarrow> jsstring \<Rightarrow> jsstring \<Rightarrow> jsstring \<Rightarrow> JobRecord list \<Rightarrow> nat list" where
  "edge_counts c5 c10 c30 c60 data =
     [length (filter (\<lambda>j. str_ge (datePosted j) c5) data),
      length (filter (\<lambda>j. str_ge (datePosted j) c10 \<and> str_lt (datePosted j) c5) data),
      length (filter (\<lambda>j. str_ge (datePosted j) c30 \<and> str_lt (datePosted j) c10) data),
      length (filter (\<lambda>j. str_ge (datePosted j) c60 \<and> str_lt (datePosted j) c30) data),
      length (filter (\<lambda>j. str_lt (datePosted j) c60) data)]"

text \<open>
  The specification's notion of a well-formed \<^verbatim>\<open>datePosted\<close>: a calendar date written
  \<^verbatim>\<open>YYYY-MM-DD\<close>. The code has no such test; the notion is used to name the records the
  specification calls malformed.
\<close>

definition is_digit :: "nat \<Rightarrow> bool" where
  "is_digit c \<longleftrightarrow> 48 \<le> c \<and> c \<le> 57"

definition digits_val :: "jsstring \<Rightarrow> int" where
  "digits_val s = foldl (\<lambda>v c. 10 * v + (int c - 48)) 0 s"

definition spec_calendar_date :: "jsstring \<Rightarrow> bool" where
  "spec_calendar_date s \<longleftrightarrow>
     length s = 10 \<and> s ! 4 = 45 \<and> s ! 7 = 45 \<and>
     list_all (\<lambda>i. is_digit (s ! i)) [0, 1, 2, 3, 5, 6, 8, 9] \<and>
     (let y = digits_val (take 4 s);
          m = digits_val (take 2 (drop 5 s));
          d = digits_val (drop 8 s)
      in 1 \<le> m \<and> m \<le> 12 \<and> 1 \<le> d \<and> civil_from_days (days_from_civil y m d) = (y, m, d))"

text \<open>Eleven postings around the band edges, one of them with a date that is no date.\<close>

definition dated_sample :: "JobRecord list" where
  "dated_sample =
     [job_on 1 ''2026-02-27'', job_on 2 ''2026-02-22'', job_on 3 ''2026-02-21'',
      job_on 4 ''2026-02-17'', job_on 5 ''2026-02-16'', job_on 6 ''2026-01-28'',
      job_on 7 ''2026-01-27'', job_on 8 ''2025-12-29'', job_on 9 ''2025-12-28'',
      job_on 10 ''soon'', job_on 11 ''2026-03-05'']"

section \<open>Top job phrases\<close>

text \<open>The \<^verbatim>\<open>stopWords\<close> set of \<^verbatim>\<open>TopKeywords\<close>.\<close>

definition stopWords :: "jsstring list" where
  "stopWords = map js
     [''the'', ''and'', ''for'', ''with'', ''from'', ''that'', ''this'', ''will'', ''are'',
      ''not'', ''but'', ''have'', ''has'', ''been'', ''its'', ''also'', ''into'', ''over'',
      ''upon'', ''senior'', ''principal'', ''lead'', ''staff'', ''junior'', ''associate'',
      ''level'', ''iii'', ''remote'']"

text \<open>\<^verbatim>\<open>[a-zA-Z]\<close> and \<^verbatim>\<open>\w\<close> of a regular expression without flags.\<close>

definition is_letter :: "nat \<Rightarrow> bool" where
  "is_letter c \<longleftrightarrow> (65 \<le> c \<and> c \<le> 90) \<or> (97 \<le> c \<and> c \<le> 122)"

definition is_word :: "nat \<Rightarrow> bool" where
  "is_word c \<longleftrightarrow> is_letter c \<or> (48 \<le> c \<and> c \<le> 57) \<or> c = 95"

text \<open>
  \<^verbatim>\<open>split(/\s+/)\<close>: the pieces between the runs of white space. \<open>cur\<close> is the piece
  being read and \<open>in_sep\<close> tells that the last code unit was white space. A string that
  begins or ends with white space gets an empty first or last piece.
\<close>

fun split_go :: "jsstring \<Rightarrow> bool \<Rightarrow> jsstring \<Rightarrow> jsstring list" where
  "split_go cur in_sep [] = [cur]"
| "split_go cur in_sep (c # cs) =
     (if is_space c then (if in_sep then split_go cur True cs else cur # split_go [] True cs)
      else split_go (cur @ [c]) False cs)"

definition split_spaces :: "jsstring \<Rightarrow> jsstring list" where
  "split_spaces s = split_go [] False s"

text \<open>
  \<^verbatim>\<open>
  const cleanTitle = (title: string) =>
    title
      .replace(/[-\u2013/,()]/g, ' ')
      .replace(/[^a-zA-Z\s]/g, '')
      .split(/\s+/)
      .map((w) => w.toLowerCase())
      .filter((w) => w.length > 1 && !stopWords.has(w))
  \<close>
  The dash U+2013 of the first class is written \<^verbatim>\<open>\u2013\<close> here. After the second
  replacement a word holds ASCII letters only, on which \<open>to_lower_unit\<close> is
  \<^verbatim>\<open>toLowerCase\<close>.
\<close>

definition cleanTitle :: "jsstring \<Rightarrow> jsstring list" where
  "cleanTitle title =
     filter (\<lambda>w. length w > 1 \<and> w \<notin> set stopWords)
       (map (map to_lower_unit)
         (split_spaces
           (filter (\<lambda>c. is_letter c \<or> is_space c)
             (map (\<lambda>c. if c \<in> {45, 8211, 47, 44, 40, 41} then 32 else c) title))))"

text \<open>\<^verbatim>\<open>words.join(' ')\<close>\<close>

fun join_space :: "jsstring list \<Rightarrow> jsstring" where
  "join_space [] = []"
| "join_space [w] = w"
| "join_space (w # v # ws) = w @ [32] @ join_space (v # ws)"

text \<open>
  The phrases the two inner loops visit, in their order:
  \<^verbatim>\<open>
  for (let n = 2; n <= 4; n++)
    for (let i = 0; i <= words.length - n; i++)
      const phrase = words.slice(i, i + n).join(' ')
  \<close>
\<close>

definition title_phrases :: "jsstring list \<Rightarrow> jsstring list" where
  "title_phrases words =
     concat (map (\<lambda>n. map (\<lambda>i. join_space (take n (drop i words))) [0 ..< length words + 1 - n])
                 [2, 3, 4])"

text \<open>
  The body of the inner loop, on the pair of \<^verbatim>\<open>phraseCounts\<close> and \<^verbatim>\<open>seen\<close>:
  \<^verbatim>\<open>
  if (!seen.has(phrase)) {
    phraseCounts.set(phrase, (phraseCounts.get(phrase) || 0) + 1)
    seen.add(phrase)
  }
  \<close>
\<close>

definition phrase_step ::
  "(jsstring \<times> nat) list \<times> jsstring list \<Rightarrow> jsstring \<Rightarrow> (jsstring \<times> nat) list \<times> jsstring list" where
  "phrase_step st phrase =
     (case st of (phraseCounts, seen) \<Rightarrow>
        if phrase \<notin> set seen
        then (map_set phrase (get_or_0 phraseCounts phrase + 1) phraseCounts, set_add phrase seen)
        else (phraseCounts, seen))"

text \<open>\<^verbatim>\<open>for (const j of data)\<close>: the words of the title, a fresh \<^verbatim>\<open>seen\<close>, the inner loops.\<close>

definition phraseCounts :: "JobRecord list \<Rightarrow> (jsstring \<times> nat) list" where
  "phraseCounts data =
     foldl (\<lambda>counts j. fst (foldl phrase_step (counts, []) (title_phrases (cleanTitle (jobTitle j)))))
       [] data"

text \<open>
  \<^verbatim>\<open>
  const candidates = Array.from(phraseCounts.entries())
    .filter(([, count]) => count >= 2)
    .sort((a, b) => b[1] - a[1])
  \<close>
\<close>

definition candidates :: "JobRecord list \<Rightarrow> (jsstring \<times> nat) list" where
  "candidates data = sort_count_desc (filter (\<lambda>(phrase, cnt). cnt \<ge> 2) (phraseCounts data))"

text \<open>\<^verbatim>\<open>selected.find(([p]) => p === existing)?.[1] ?? 0\<close>\<close>

definition existingCount :: "(jsstring \<times> nat) list \<Rightarrow> jsstring \<Rightarrow> nat" where
  "existingCount selected existing =
     (case find (\<lambda>(p, c). p = existing) selected of None \<Rightarrow> 0 | Some (p, c) \<Rightarrow> c)"

text \<open>
  The loop over \<^verbatim>\<open>covered\<close> that sets \<^verbatim>\<open>dominated\<close>; \<^verbatim>\<open>break\<close> ends it with \<open>True\<close>.
  \<^verbatim>\<open>
  for (const existing of covered) {
    if (existing.includes(phrase) || phrase.includes(existing)) {
      const existingCount = selected.find(([p]) => p === existing)?.[1] ?? 0
      if (existing.includes(phrase)) { dominated = true; break }
      if (phrase.includes(existing) && count >= existingCount) { dominated = true; break }
    }
  }
  \<close>
\<close>

fun dominated_by :: "(jsstring \<times> nat) list \<Rightarrow> jsstring \<Rightarrow> nat \<Rightarrow> jsstring list \<Rightarrow> bool" where
  "dominated_by selected phrase cnt [] = False"
| "dominated_by selected phrase cnt (existing # rest) =
     (if str_includes existing phrase \<or> str_includes phrase existing then
        (if str_includes existing phrase then True
         else if str_includes phrase existing \<and> cnt \<ge> existingCount selected existing then True
         else dominated_by selected phrase cnt rest)
      else dominated_by selected phrase cnt rest)"

text \<open>
  The loop over \<^verbatim>\<open>candidates\<close>, on \<^verbatim>\<open>selected\<close> and \<^verbatim>\<open>covered\<close>:
  \<^verbatim>\<open>
  if (!dominated) {
    selected.push([phrase, count])
    covered.add(phrase)
  }
  if (selected.length >= 15) break
  \<close>
\<close>

fun select_loop ::
  "(jsstring \<times> nat) list \<Rightarrow> (jsstring \<times> nat) list \<Rightarrow> jsstring list \<Rightarrow> (jsstring \<times> nat) list" where
  "select_loop [] selected covered = selected"
| "select_loop ((phrase, cnt) # rest) selected covered =
     (let dominated = dominated_by selected phrase cnt covered;
          selected' = (if \<not> dominated then selected @ [(phrase, cnt)] else selected);
          covered' = (if \<not> dominated then set_add phrase covered else covered)
      in if length selected' \<ge> 15 then selected' else select_loop rest selected' covered')"

definition selected_phrases :: "JobRecord list \<Rightarrow> (jsstring \<times> nat) list" where
  "selected_phrases data = select_loop (candidates data) [] []"

text \<open>
  \<^verbatim>\<open>phrase.replace(/\b\w/g, (c) => c.toUpperCase())\<close>: a word character that follows
  the start or a character that is no word character is put in upper case.
\<close>

definition to_upper_unit :: "nat \<Rightarrow> nat" where
  "to_upper_unit c = (if 97 \<le> c \<and> c \<le> 122 then c - 32 else c)"

fun title_case_go :: "bool \<Rightarrow> jsstring \<Rightarrow> jsstring" where
  "title_case_go prev_word [] = []"
| "title_case_go prev_word (c # cs) =
     (if is_word c \<and> \<not> prev_word then to_upper_unit c else c) # title_case_go (is_word c) cs"

definition title_case :: "jsstring \<Rightarrow> jsstring" where
  "title_case phrase = title_case_go False phrase"

text \<open>The \<^verbatim>\<open>keywords\<close> of \<^verbatim>\<open>TopKeywords\<close>: the selected phrases, title-cased, with their counts.\<close>

definition TopKeywords :: "JobRecord list \<Rightarrow> (jsstring \<times> nat) list" where
  "TopKeywords data = map (\<lambda>(phrase, cnt). (title_case phrase, cnt)) (selected_phrases data)"

text \<open>
  The support of a phrase in a subset: the number of records whose title yields the
  phrase, each record counted once.
\<close>

definition support :: "jsstring \<Rightarrow> JobRecord list \<Rightarrow> nat" where
  "support phrase data =
     length (filter (\<lambda>j. phrase \<in> set (title_phrases (cleanTitle (jobTitle j)))) data)"

text \<open>A record with the given title; the other fields are fixed.\<close>

definition job_titled :: "int \<Rightarrow> string \<Rightarrow> JobRecord" where
  "job_titled i t =
     \<lparr>id_num = i, jobTitle = js t, employer = js ''Oracle'',
      location = js ''Phoenix'', datePosted = js ''2026-02-01'', status = js ''Active'',
      wage = None, category = js ''Software Developers'', occupationName = js ''Developers'',
      soc = js ''15-1252'', url = js ''u''\<rparr>"

definition title_sample :: "JobRecord list" where
  "title_sample =
     [job_titled 1 ''Data Center Engineer'', job_titled 2 ''Senior Data-Center Engineer'',
      job_titled 3 ''Data Center'', job_titled 4 ''Center Engineer'']"

text \<open>
  How a phrase kept earlier (\<open>x\<close>) and one kept later (\<open>y\<close>) stand: the later is no
  substring of the earlier, and where the earlier is a substring of the later, the later
  has the smaller count.
\<close>

definition kept_rel :: "jsstring \<times> nat \<Rightarrow> jsstring \<times> nat \<Rightarrow> bool" where
  "kept_rel x y \<longleftrightarrow> \<not> str_includes (fst x) (fst y) \<and> (str_includes (fst y) (fst x) \<longrightarrow> snd y < snd x)"

section \<open>Average wage\<close>

lemma Math_round_bounds:
  "of_int (Math_round x) \<le> x + 1 / 2 \<and> x + 1 / 2 < of_int (Math_round x) + 1"
  unfolding Math_round_def using floor_correct [of "x + 1 / 2"] by simp

lemma Math_round_unique:
  "of_int k \<le> x + 1 / 2 \<Longrightarrow> x + 1 / 2 < of_int k + 1 \<Longrightarrow> Math_round x = k"
  unfolding Math_round_def by (rule floor_unique)

lemma has_wage_pos: "has_wage r \<Longrightarrow> 0 < wage_num r"
  by (auto simp: has_wage_def wage_num_def split: option.splits)

lemma whole_pos_ge_one:
  assumes "x \<in> \<int>" and "0 < x"
  shows "1 \<le> (x::rat)"
proof -
  from assms(1) obtain k :: int where k: "x = of_int k" by (auto elim: Ints_cases)
  with assms(2) have "0 < k" by simp
  then have "1 \<le> k" by simp
  with k show ?thesis by simp
qed

lemma fixes_whole:
  assumes "double_rounding fl" and "x \<in> \<int>" and "\<bar>x\<bar> \<le> 2 ^ 53"
  shows "fl x = x"
proof -
  from assms(2) obtain k :: int where k: "x = of_int k" by (auto elim: Ints_cases)
  with assms(3) have "\<bar>k\<bar> \<le> 2 ^ 53"
    by (metis of_int_abs of_int_le_iff of_int_numeral of_int_power)
  with assms(1) have "fl (of_int k / 2 ^ 0) = of_int k / 2 ^ 0"
    unfolding double_rounding_def by blast
  with k show ?thesis by simp
qed

lemma double_sum_exact:
  assumes fl: "double_rounding fl"
    and w: "\<forall>r\<in>set xs. wage_num r \<in> \<int> \<and> 0 < wage_num r"
    and a: "a \<in> \<int>" "0 \<le> a"
    and b: "a + sum_list (map wage_num xs) \<le> 2 ^ 53"
  shows "foldl (\<lambda>s r. fl (s + wage_num r)) a xs = a + sum_list (map wage_num xs)"
  using w a b
proof (induction xs arbitrary: a)
  case Nil
  then show ?case by simp
next
  case (Cons r xs)
  have nn: "0 \<le> sum_list (map wage_num xs)"
    using Cons.prems(1) by (intro sum_list_nonneg) auto
  have ar: "a + wage_num r \<in> \<int>" "0 \<le> a + wage_num r"
    using Cons.prems by (auto intro: Ints_add)
  have "\<bar>a + wage_num r\<bar> \<le> 2 ^ 53"
    using ar(2) nn Cons.prems(4) by simp
  with fl ar(1) have e: "fl (a + wage_num r) = a + wage_num r" by (rule fixes_whole)
  have "foldl (\<lambda>s r. fl (s + wage_num r)) (a + wage_num r) xs
        = a + wage_num r + sum_list (map wage_num xs)"
    using Cons.prems ar by (intro Cons.IH) (auto simp: add.assoc)
  with e show ?case by (simp add: add.assoc)
qed


lemma round_quotient:
  fixes S :: int and n :: nat
  assumes fl: "double_rounding fl" and n1: "1 \<le> n" and nS: "int n \<le> S" and Sb: "S \<le> 2 ^ 50"
  shows "Math_round (fl (of_int S / of_nat n)) = Math_round (of_int S / of_nat n)"
proof -
  define N where "N = int n"
  define x :: rat where "x = of_int S / of_int N"
  define k where "k = Math_round x"
  have N1: "1 \<le> N" and NS: "N \<le> S" using n1 nS by (simp_all add: N_def)
  have Npos: "(0::rat) < of_int N" using N1 by simp
  have mono: "fl a \<le> fl b" if "a \<le> b" for a b
    using fl that unfolding double_rounding_def by blast
  have fixed: "fl (of_int i / 2 ^ j) = of_int i / 2 ^ j" if "\<bar>i\<bar> \<le> 2 ^ 53" "j \<le> 64" for i j
    using fl that unfolding double_rounding_def by blast
  have kb: "of_int k \<le> x + 1 / 2" "x + 1 / 2 < of_int k + 1"
    using Math_round_bounds [of x] by (simp_all add: k_def)
  have xN: "x * of_int N = of_int S" using Npos by (simp add: x_def)
  have x1: "1 \<le> x" using Npos NS by (simp add: x_def le_divide_eq)
  have xS: "x \<le> of_int S"
  proof -
    have "(of_int S :: rat) * 1 \<le> of_int S * of_int N"
      using N1 NS by (intro mult_left_mono) simp_all
    then show ?thesis using Npos by (simp add: x_def divide_le_eq)
  qed
  have k1: "1 \<le> k"
  proof -
    from x1 kb(2) have "(1 / 2 :: rat) < of_int k" by linarith
    then have "(0::rat) < of_int k" by linarith
    then show ?thesis by simp
  qed
  have kS: "k \<le> S"
  proof -
    from kb(1) xS have "(of_int k :: rat) < of_int S + 1" by linarith
    then have "(of_int k :: rat) < of_int (S + 1)" by simp
    then have "k < S + 1" by (simp only: of_int_less_iff)
    then show ?thesis by simp
  qed
  have iA: "(2 * k + 1) * N \<le> 2 * S + 2 * N"
  proof -
    have "of_int k * of_int N \<le> (x + 1 / 2) * of_int N"
      using kb(1) Npos by (intro mult_right_mono) simp_all
    also have "\<dots> = of_int S + of_int N / 2" using xN by (simp add: algebra_simps)
    finally have "(of_int ((2 * k + 1) * N) :: rat) \<le> of_int (2 * S + 2 * N)"
      by (simp add: algebra_simps)
    then show ?thesis by (simp only: of_int_le_iff)
  qed
  have iB: "2 * S + 1 \<le> (2 * k + 1) * N"
  proof -
    have "(x + 1 / 2) * of_int N < (of_int k + 1) * of_int N"
      using kb(2) Npos by (intro mult_strict_right_mono) simp_all
    moreover have "(x + 1 / 2) * of_int N = of_int S + of_int N / 2"
      using xN by (simp add: algebra_simps)
    ultimately have "(of_int (2 * S) :: rat) < of_int ((2 * k + 1) * N)"
      by (simp add: algebra_simps)
    then have "2 * S < (2 * k + 1) * N" by (simp only: of_int_less_iff)
    then show ?thesis by simp
  qed
  \<comment> \<open>below: the half before \<open>k\<close> is a double\<close>
  have "\<bar>2 * k - 1\<bar> \<le> 2 ^ 53" using k1 kS Sb by simp
  then have "fl (of_int (2 * k - 1) / 2 ^ 1) = of_int (2 * k - 1) / 2 ^ 1"
    by (rule fixed) simp
  moreover have "of_int (2 * k - 1) / 2 ^ 1 \<le> x" using kb(1) by simp
  then have "fl (of_int (2 * k - 1) / 2 ^ 1) \<le> fl x" by (rule mono)
  ultimately have "of_int (2 * k - 1) / 2 ^ 1 \<le> fl x" by (simp only:)
  then have low: "of_int k \<le> fl x + 1 / 2" by simp
  \<comment> \<open>above: a double lies between the quotient and the half after \<open>k\<close>\<close>
  have "1 \<le> 2 * n - 1" using n1 by simp
  with ex_power_ivl1 [of 2 "2 * n - 1"]
  obtain m where m: "2 ^ m \<le> 2 * n - 1" "2 * n - 1 < 2 ^ (m + 1)" by auto
  have mN: "(2::int) ^ m \<le> 2 * N - 1"
  proof -
    from m(1) have "int (2 ^ m) \<le> int (2 * n - 1)" by (simp only: of_nat_le_iff)
    then show ?thesis using n1 by (simp add: N_def of_nat_diff)
  qed
  have Nm: "2 * N \<le> 2 ^ (m + 1)"
  proof -
    from m(2) have "2 * n \<le> 2 ^ (m + 1)" by simp
    then have "int (2 * n) \<le> int (2 ^ (m + 1))" by (simp only: of_nat_le_iff)
    then show ?thesis by (simp add: N_def)
  qed
  define M where "M = (2 * k + 1) * 2 ^ m - 1"
  have Mb: "\<bar>M\<bar> \<le> 2 ^ 53"
  proof -
    have "(1::int) * 1 \<le> (2 * k + 1) * 2 ^ m"
      using k1 by (intro mult_mono) simp_all
    then have "0 \<le> M" by (simp add: M_def)
    have "(2 * k + 1) * 2 ^ m \<le> (2 * k + 1) * (2 * N - 1)"
      using mN k1 by (intro mult_left_mono) simp_all
    also have "\<dots> \<le> 2 * ((2 * k + 1) * N)" using k1 by (simp add: algebra_simps)
    also have "\<dots> \<le> 2 * (2 * S + 2 * N)" using iA by simp
    also have "\<dots> \<le> 8 * S" using NS by simp
    also have "\<dots> \<le> 2 ^ 53" using Sb by simp
    finally have "M \<le> 2 ^ 53" by (simp add: M_def)
    with \<open>0 \<le> M\<close> show ?thesis by simp
  qed
  have j64: "m + 1 \<le> 64"
  proof -
    have "(2::int) ^ (m + 1) \<le> 2 * (2 * N - 1)" using mN by simp
    also have "\<dots> < 4 * S" using NS by simp
    also have "\<dots> \<le> 2 ^ 52" using Sb by simp
    finally have "(2::int) ^ (m + 1) < 2 ^ 52" .
    then have "m + 1 < 52" by (rule power_less_imp_less_exp [rotated]) simp
    then show ?thesis by simp
  qed
  have fy: "fl (of_int M / 2 ^ (m + 1)) = of_int M / 2 ^ (m + 1)"
    using Mb j64 by (rule fixed)
  have yv: "of_int M / 2 ^ (m + 1) = (of_int k + 1 / 2 - 1 / 2 ^ (m + 1) :: rat)"
    by (simp add: M_def field_simps)
  have "x \<le> of_int k + 1 / 2 - 1 / (2 * of_int N)"
  proof -
    have "(of_int (2 * S + 1) :: rat) \<le> of_int ((2 * k + 1) * N)"
      using iB by (simp only: of_int_le_iff)
    then have "2 * (x * of_int N) + 1 \<le> (2 * of_int k + 1) * of_int N"
      by (simp add: xN)
    then show ?thesis using Npos by (simp add: field_simps)
  qed
  moreover have "(1 / 2 ^ (m + 1) :: rat) \<le> 1 / (2 * of_int N)"
  proof -
    have "(of_int (2 * N) :: rat) \<le> of_int (2 ^ (m + 1))"
      using Nm by (simp only: of_int_le_iff)
    then have "(2 * of_int N :: rat) \<le> 2 ^ (m + 1)" by simp
    then show ?thesis using Npos by (intro divide_left_mono) simp_all
  qed
  ultimately have "x \<le> of_int M / 2 ^ (m + 1)" unfolding yv by linarith
  then have "fl x \<le> fl (of_int M / 2 ^ (m + 1))" by (rule mono)
  then have "fl x \<le> of_int M / 2 ^ (m + 1)" by (simp only: fy)
  moreover have "(0::rat) < 1 / 2 ^ (m + 1)" by simp
  ultimately have up: "fl x + 1 / 2 < of_int k + 1" unfolding yv by linarith
  have "Math_round (fl x) = k" using low up by (rule Math_round_unique)
  then show ?thesis by (simp add: k_def x_def N_def)
qed


lemma sum_list_whole: "\<forall>x\<in>set xs. x \<in> \<int> \<Longrightarrow> sum_list xs \<in> (\<int> :: rat set)"
  by (induction xs) (auto intro: Ints_add)

lemma sum_list_ge_length: "\<forall>x\<in>set xs. 1 \<le> x \<Longrightarrow> of_nat (length xs) \<le> (sum_list xs :: rat)"
proof (induction xs)
  case Nil
  show ?case by simp
next
  case (Cons x xs)
  then have "1 \<le> x" and "of_nat (length xs) \<le> sum_list xs" by simp_all
  then show ?case by simp
qed

lemma avgWage_whole:
  assumes ex: "\<exists>r\<in>set arr. has_wage r" and fl: "double_rounding fl"
    and wh: "whole_wages arr"
    and b: "sum_list (map wage_num (filter has_wage arr)) \<le> 2 ^ 50"
  shows "avgWage fl arr = Math_round (exact_mean arr)" and "1 \<le> exact_mean arr"
proof -
  let ?w = "filter has_wage arr"
  let ?ws = "map wage_num ?w"
  from ex have ne: "?w \<noteq> []" by (simp add: filter_empty_conv)
  have el: "\<forall>r\<in>set ?w. wage_num r \<in> \<int> \<and> 0 < wage_num r"
    using wh by (auto simp: whole_wages_def has_wage_pos)
  then have ge1: "\<forall>x\<in>set ?ws. 1 \<le> x" by (auto intro: whole_pos_ge_one)
  have "sum_list ?ws \<in> \<int>" using el by (intro sum_list_whole) auto
  then obtain S :: int where S: "sum_list ?ws = of_int S" by (auto elim: Ints_cases)
  have len: "of_nat (length ?w) \<le> sum_list ?ws"
    using sum_list_ge_length [OF ge1] by simp
  then have "(of_int (int (length ?w)) :: rat) \<le> of_int S" by (simp add: S)
  then have nS: "int (length ?w) \<le> S" by (simp only: of_int_le_iff)
  from b have "(of_int S :: rat) \<le> of_int (2 ^ 50)" by (simp add: S)
  then have Sb: "S \<le> 2 ^ 50" by (simp only: of_int_le_iff)
  from ne have n1: "1 \<le> length ?w" by (simp add: Suc_le_eq)
  have "0 + sum_list ?ws \<le> 2 ^ 53" using b by simp
  with fl el have sum: "foldl (\<lambda>s r. fl (s + wage_num r)) 0 ?w = 0 + sum_list ?ws"
    by (intro double_sum_exact) simp_all
  have "avgWage fl arr = Math_round (fl (of_int S / of_nat (length ?w)))"
    using ne by (simp add: avgWage_def Let_def sum S)
  also have "\<dots> = Math_round (of_int S / of_nat (length ?w))"
    using fl n1 nS Sb by (rule round_quotient)
  finally show "avgWage fl arr = Math_round (exact_mean arr)"
    by (simp add: exact_mean_def S)
  from ne have "(0::rat) < of_nat (length ?w)" by simp
  with len show "1 \<le> exact_mean arr"
    by (simp add: exact_mean_def le_divide_eq)
qed

text \<open>
  Claim C6, as the code has it. The average wage is 0 when no record of the subset has a
  wage above 0. Otherwise it is the mean of the wages that are present and above 0, as
  double arithmetic computes it, rounded to the nearest integer with a half rounded up;
  records with an absent or zero wage enter neither the sum nor the count. For whole
  wages with a sum up to \<open>2 ^ 50\<close> that is the integer nearest to the exact mean, and it
  is at least 1: there the average is 0 exactly when no record has a wage above 0.
\<close>

theorem avgWage_rounded_mean:
  "((\<forall>r\<in>set arr. \<not> has_wage r) \<longrightarrow> avgWage fl arr = 0) \<and>
   ((\<exists>r\<in>set arr. has_wage r) \<longrightarrow>
      of_int (avgWage fl arr) \<le> double_mean fl arr + 1 / 2 \<and>
      double_mean fl arr + 1 / 2 < of_int (avgWage fl arr) + 1) \<and>
   ((\<exists>r\<in>set arr. has_wage r) \<and> double_rounding fl \<and> whole_wages arr \<and>
    sum_list (map wage_num (filter has_wage arr)) \<le> 2 ^ 50 \<longrightarrow>
      of_int (avgWage fl arr) \<le> exact_mean arr + 1 / 2 \<and>
      exact_mean arr + 1 / 2 < of_int (avgWage fl arr) + 1 \<and>
      1 \<le> avgWage fl arr)"
proof (intro conjI impI)
  assume "\<forall>r\<in>set arr. \<not> has_wage r"
  then have "filter has_wage arr = []" by (simp add: filter_empty_conv)
  then show "avgWage fl arr = 0" by (simp add: avgWage_def)
next
  assume "\<exists>r\<in>set arr. has_wage r"
  then have "filter has_wage arr \<noteq> []" by (simp add: filter_empty_conv)
  then have "avgWage fl arr = Math_round (double_mean fl arr)"
    by (simp add: avgWage_def double_mean_def Let_def)
  with Math_round_bounds [of "double_mean fl arr"]
  show "of_int (avgWage fl arr) \<le> double_mean fl arr + 1 / 2"
    and "double_mean fl arr + 1 / 2 < of_int (avgWage fl arr) + 1"
    by simp_all
next
  assume h: "(\<exists>r\<in>set arr. has_wage r) \<and> double_rounding fl \<and> whole_wages arr \<and>
    sum_list (map wage_num (filter has_wage arr)) \<le> 2 ^ 50"
  then have v: "avgWage fl arr = Math_round (exact_mean arr)" and m: "1 \<le> exact_mean arr"
    using avgWage_whole [of arr fl] by blast+
  from v Math_round_bounds [of "exact_mean arr"]
  show lo: "of_int (avgWage fl arr) \<le> exact_mean arr + 1 / 2"
    and hi: "exact_mean arr + 1 / 2 < of_int (avgWage fl arr) + 1"
    by simp_all
  from hi m have "(0::rat) < of_int (avgWage fl arr)" by linarith
  then show "1 \<le> avgWage fl arr" by simp
qed

theorem avgWage_rounded_mean_witness:
  "avgWage (\<lambda>x. x) [job_with_wage 4 None, job_with_wage 5 (Some 0)] = 0 \<and>
   (\<exists>r\<in>set uneven_wages. has_wage r) \<and>
   sum_list (map wage_num (filter has_wage uneven_wages)) \<le> 2 ^ 50 \<and>
   exact_mean uneven_wages = 360002 / 3 \<and>
   avgWage (\<lambda>x. x) uneven_wages = 120001"
proof -
  have none: "\<forall>r\<in>set [job_with_wage 4 None, job_with_wage 5 (Some 0)]. \<not> has_wage r"
    by (simp add: job_with_wage_def has_wage_def)
  have flt: "filter has_wage uneven_wages =
      [job_with_wage 1 (Some 90000), job_with_wage 2 (Some 120001), job_with_wage 3 (Some 150001)]"
    by (simp add: uneven_wages_def job_with_wage_def has_wage_def)
  have ex: "\<exists>r\<in>set uneven_wages. has_wage r"
    by (simp add: uneven_wages_def job_with_wage_def has_wage_def)
  have dr: "double_rounding (\<lambda>x. x)" by (simp add: double_rounding_def)
  have wh: "whole_wages uneven_wages"
    by (simp add: whole_wages_def uneven_wages_def job_with_wage_def has_wage_def wage_num_def)
  have sm: "sum_list (map wage_num (filter has_wage uneven_wages)) = 360002"
    by (simp add: flt job_with_wage_def wage_num_def)
  have em: "exact_mean uneven_wages = 360002 / 3"
    by (simp add: exact_mean_def flt sm del: sum_list.Cons) (simp add: job_with_wage_def wage_num_def)
  from avgWage_rounded_mean [of "[job_with_wage 4 None, job_with_wage 5 (Some 0)]" "\<lambda>x. x"] none
  have zero: "avgWage (\<lambda>x. x) [job_with_wage 4 None, job_with_wage 5 (Some 0)] = 0" by blast
  from avgWage_rounded_mean [of uneven_wages "\<lambda>x. x"] ex dr wh sm
  have "of_int (avgWage (\<lambda>x. x) uneven_wages) \<le> exact_mean uneven_wages + 1 / 2 \<and>
        exact_mean uneven_wages + 1 / 2 < of_int (avgWage (\<lambda>x. x) uneven_wages) + 1"
    by simp
  then have "(of_int (avgWage (\<lambda>x. x) uneven_wages) :: rat) \<le> of_int 120001 + 1 / 6"
    and "(of_int 120001 :: rat) + 1 / 6 < of_int (avgWage (\<lambda>x. x) uneven_wages) + 1"
    by (simp_all add: em)
  then have "(of_int (avgWage (\<lambda>x. x) uneven_wages) :: rat) < of_int (120001 + 1)"
    and "(of_int (120001 - 1) :: rat) < of_int (avgWage (\<lambda>x. x) uneven_wages)"
    by simp_all
  then have "avgWage (\<lambda>x. x) uneven_wages < 120001 + 1" and "120001 - 1 < avgWage (\<lambda>x. x) uneven_wages"
    by (simp_all only: of_int_less_iff)
  then have "avgWage (\<lambda>x. x) uneven_wages = 120001" by simp
  with zero ex sm em show ?thesis by simp
qed

theorem avgWage_fraction_counterexample:
  "has_wage (job_with_wage 1 (Some (1 / 4))) \<and>
   avgWage (\<lambda>x. x) [job_with_wage 1 (Some (1 / 4))] = 0"
proof -
  have "Math_round (1 / 4) = 0" by (rule Math_round_unique) simp_all
  then show ?thesis
    by (simp add: avgWage_def job_with_wage_def has_wage_def wage_num_def)
qed

section \<open>Filter pipeline: unrestricted state and wage bands\<close>

lemma distinct_set_add: "distinct s \<Longrightarrow> distinct (set_add x s)"
  by (simp add: set_add_def)

lemma distinct_foldl_set_add:
  "distinct s \<Longrightarrow>
   distinct (foldl (\<lambda>s r. let val = f r in if trim val \<noteq> [] then set_add (trim val) s else s) s data)"
  by (induction data arbitrary: s) (simp_all add: Let_def distinct_set_add)

lemma distinct_getUniqueValues: "distinct (getUniqueValues data f)"
  unfolding getUniqueValues_def by (rule distinct_foldl_set_add) simp

lemma card_getUniqueValues: "card (set (getUniqueValues data f)) = length (getUniqueValues data f)"
  by (simp add: distinct_card distinct_getUniqueValues)

lemma js_tags:
  "js ''listed'' \<noteq> js ''all''" "js ''unlisted'' \<noteq> js ''all''" "js ''150k+'' \<noteq> js ''all''"
  "js ''100k-150k'' \<noteq> js ''all''" "js ''50k-100k'' \<noteq> js ''all''" "js ''under50k'' \<noteq> js ''all''"
  by (simp_all add: js_def)

text \<open>
  Claim C4. In a filter state where every dimension is "no restriction" (no active
  category, each inclusion set equal to the full set of distinct values, no wage band, no
  date bound, a blank query) the filter pipeline returns the record store itself: each
  predicate is skipped, so the result has exactly the records, hence the ids, of the store.
\<close>

theorem no_restriction_identity:
  "no_restriction jobs st \<Longrightarrow> filteredJobs lc jobs st = jobs"
  by (auto simp: no_restriction_def filteredJobs_def Let_def card_getUniqueValues)

lemma filteredJobs_wage_only:
  assumes "no_restriction jobs st"
  shows "filteredJobs lc jobs (st\<lparr>wageFilter := tag\<rparr>) = (if tag \<noteq> js ''all'' then wage_switch tag jobs else jobs)"
  using assms by (auto simp: no_restriction_def filteredJobs_def Let_def card_getUniqueValues)

text \<open>
  Claim C8. With the other dimensions unrestricted, the wage band "100k-150k" keeps
  exactly the records with a listed wage in [100000, 150000); the other tags keep the
  wages from 150000, in [50000, 100000), in (0, 50000), the wages present and above 0,
  and the wages absent or 0. On the wages 90000, 120000, 150000 and null the band
  "100k-150k" selects the record with wage 120000 only.
\<close>

theorem wage_band_semantics:
  assumes "no_restriction jobs st"
  shows "filteredJobs lc jobs (st\<lparr>wageFilter := js ''100k-150k''\<rparr>) =
           filter (\<lambda>j. \<exists>w. wage j = Some w \<and> 100000 \<le> w \<and> w < 150000) jobs \<and>
         filteredJobs lc jobs (st\<lparr>wageFilter := js ''150k+''\<rparr>) =
           filter (\<lambda>j. \<exists>w. wage j = Some w \<and> 150000 \<le> w) jobs \<and>
         filteredJobs lc jobs (st\<lparr>wageFilter := js ''50k-100k''\<rparr>) =
           filter (\<lambda>j. \<exists>w. wage j = Some w \<and> 50000 \<le> w \<and> w < 100000) jobs \<and>
         filteredJobs lc jobs (st\<lparr>wageFilter := js ''under50k''\<rparr>) =
           filter (\<lambda>j. \<exists>w. wage j = Some w \<and> 0 < w \<and> w < 50000) jobs \<and>
         filteredJobs lc jobs (st\<lparr>wageFilter := js ''listed''\<rparr>) =
           filter (\<lambda>j. \<exists>w. wage j = Some w \<and> 0 < w) jobs \<and>
         filteredJobs lc jobs (st\<lparr>wageFilter := js ''unlisted''\<rparr>) =
           filter (\<lambda>j. wage j = None \<or> wage j = Some 0) jobs"
proof -
  have pw: "(case wage j of None \<Rightarrow> False | Some w \<Rightarrow> P w) = (\<exists>w. wage j = Some w \<and> P w)"
    "(case wage j of None \<Rightarrow> True | Some w \<Rightarrow> w = 0) = (wage j = None \<or> wage j = Some 0)"
    for j :: JobRecord and P
    by (cases "wage j"; simp)+
  have sw: "wage_switch (js ''100k-150k'') jobs = filter (\<lambda>j. \<exists>w. wage j = Some w \<and> 100000 \<le> w \<and> w < 150000) jobs"
    "wage_switch (js ''150k+'') jobs = filter (\<lambda>j. \<exists>w. wage j = Some w \<and> 150000 \<le> w) jobs"
    "wage_switch (js ''50k-100k'') jobs = filter (\<lambda>j. \<exists>w. wage j = Some w \<and> 50000 \<le> w \<and> w < 100000) jobs"
    "wage_switch (js ''under50k'') jobs = filter (\<lambda>j. \<exists>w. wage j = Some w \<and> 0 < w \<and> w < 50000) jobs"
    "wage_switch (js ''listed'') jobs = filter (\<lambda>j. \<exists>w. wage j = Some w \<and> 0 < w) jobs"
    "wage_switch (js ''unlisted'') jobs = filter (\<lambda>j. wage j = None \<or> wage j = Some 0) jobs"
    by (simp_all add: wage_switch_def js_def pw)
  show ?thesis
    by (simp only: filteredJobs_wage_only [OF assms] js_tags if_True sw simp_thms)
qed

theorem wage_band_semantics_witness:
  "no_restriction wage_sample (initial_state wage_sample) \<and>
   map wage (filteredJobs (map to_lower_unit) wage_sample
              ((initial_state wage_sample)\<lparr>wageFilter := js ''100k-150k''\<rparr>)) = [Some 120000]"
proof -
  have nr: "no_restriction wage_sample (initial_state wage_sample)"
    by (simp add: no_restriction_def initial_state_def trim_def)
  show ?thesis
    using wage_band_semantics [OF nr, of "map to_lower_unit"] nr
    by (simp add: wage_sample_def job_with_wage_def)
qed

theorem no_restriction_identity_witness:
  "no_restriction wage_sample (initial_state wage_sample) \<and>
   filteredJobs (map to_lower_unit) wage_sample (initial_state wage_sample) = wage_sample"
proof -
  have nr: "no_restriction wage_sample (initial_state wage_sample)"
    by (simp add: no_restriction_def initial_state_def trim_def)
  show ?thesis
    using no_restriction_identity [OF nr, of "map to_lower_unit"] nr by simp
qed

section \<open>Employer ranking\<close>

lemma fst_map_set: "map fst (map_set k v m) = set_add k (map fst m)"
  by (induction m) (force simp: set_add_def)+

lemma map_of_map_set: "map_of (map_set k v m) = (map_of m)(k \<mapsto> v)"
  by (induction m) (auto simp: fun_eq_iff)

lemma fst_foldl_count:
  "map fst (foldl (\<lambda>counts j. map_set (f j) (get_or_0 counts (f j) + 1) counts) m data) =
   foldl (\<lambda>s x. set_add x s) (map fst m) (map f data)"
  by (induction data arbitrary: m) (simp_all add: fst_map_set)

lemma get_foldl_count:
  "get_or_0 (foldl (\<lambda>counts j. map_set (f j) (get_or_0 counts (f j) + 1) counts) m data) k =
   get_or_0 m k + length (filter (\<lambda>j. f j = k) data)"
  by (induction data arbitrary: m) (auto simp: get_or_0_def map_of_map_set)

lemma set_foldl_set_add: "set (foldl (\<lambda>s x. set_add x s) s xs) = set s \<union> set xs"
  by (induction xs arbitrary: s) (auto simp: set_add_def)

lemma distinct_foldl_add: "distinct s \<Longrightarrow> distinct (foldl (\<lambda>s x. set_add x s) s xs)"
  by (induction xs arbitrary: s) (auto simp: set_add_def)

lemma first_index_less: "x \<in> set xs \<Longrightarrow> first_index x xs < length xs"
  by (induction xs) auto

lemma first_index_append: "x \<in> set xs \<Longrightarrow> first_index x (xs @ ys) = first_index x xs"
  by (induction xs) auto

lemma first_index_new: "x \<notin> set xs \<Longrightarrow> first_index x (xs @ [x]) = length xs"
  by (induction xs) auto

lemma first_seen_sorted:
  "sorted_wrt (\<lambda>a b. first_index a xs < first_index b xs) (foldl (\<lambda>s x. set_add x s) [] xs)"
proof (induction xs rule: rev_induct)
  case Nil
  show ?case by simp
next
  case (snoc x xs)
  let ?u = "foldl (\<lambda>s x. set_add x s) [] xs"
  have su: "set ?u = set xs" by (simp add: set_foldl_set_add)
  have old: "sorted_wrt (\<lambda>a b. first_index a (xs @ [x]) < first_index b (xs @ [x])) ?u"
    using snoc.IH
    by (rule sorted_wrt_mono_rel [rotated]) (simp add: su first_index_append)
  show ?case
  proof (cases "x \<in> set xs")
    case True
    with old su show ?thesis by (simp add: set_add_def)
  next
    case False
    with old su show ?thesis
      by (auto simp: set_add_def sorted_wrt_append first_index_append first_index_new first_index_less)
  qed
qed


lemma keys_count_by: "map fst (count_by f data) = foldl (\<lambda>s x. set_add x s) [] (map f data)"
  unfolding count_by_def using fst_foldl_count [of f "[]" data] by simp

lemma distinct_count_by: "distinct (map fst (count_by f data))"
  by (simp add: keys_count_by distinct_foldl_add)

lemma set_keys_count_by: "fst ` set (count_by f data) = f ` set data"
  using arg_cong [OF keys_count_by, of set f data] by (simp add: set_foldl_set_add)

lemma count_by_value:
  assumes "(k, c) \<in> set (count_by f data)"
  shows "c = length (filter (\<lambda>j. f j = k) data)"
proof -
  from assms have "map_of (count_by f data) k = Some c"
    by (simp add: distinct_count_by)
  then have "get_or_0 (count_by f data) k = c" by (simp add: get_or_0_def)
  moreover have "get_or_0 (count_by f data) k = get_or_0 [] k + length (filter (\<lambda>j. f j = k) data)"
    unfolding count_by_def by (rule get_foldl_count)
  ultimately show ?thesis by (simp add: get_or_0_def)
qed

lemma count_by_first_seen:
  "sorted_wrt (\<lambda>p q. first_index (fst p) (map f data) < first_index (fst q) (map f data))
     (count_by f data)"
  using first_seen_sorted [of "map f data"]
  by (simp add: keys_count_by [symmetric] sorted_wrt_map)

lemma insort_key_lex:
  fixes f :: "'a \<Rightarrow> int" and g :: "'a \<Rightarrow> nat"
  assumes "sorted_wrt (\<lambda>a b. f a < f b \<or> (f a = f b \<and> g a < g b)) ys"
    and "\<forall>y\<in>set ys. g x < g y"
  shows "sorted_wrt (\<lambda>a b. f a < f b \<or> (f a = f b \<and> g a < g b)) (insort_key f x ys)"
  using assms
proof (induction ys)
  case Nil
  show ?case by simp
next
  case (Cons y ys)
  show ?case
  proof (cases "f x \<le> f y")
    case True
    with Cons.prems show ?thesis by (fastforce simp: set_insort_key)
  next
    case False
    with Cons show ?thesis by (auto simp: set_insort_key)
  qed
qed

lemma sort_key_lex:
  fixes f :: "'a \<Rightarrow> int" and g :: "'a \<Rightarrow> nat"
  assumes "sorted_wrt (\<lambda>a b. g a < g b) xs"
  shows "sorted_wrt (\<lambda>a b. f a < f b \<or> (f a = f b \<and> g a < g b)) (sort_key f xs)"
  using assms
proof (induction xs)
  case Nil
  show ?case by simp
next
  case (Cons x xs)
  then show ?case by (simp add: insort_key_lex)
qed

lemma employerRanking_sorted:
  "sorted_wrt (\<lambda>p q. snd p > snd q \<or>
       (snd p = snd q \<and>
        first_index (fst p) (map employer data) < first_index (fst q) (map employer data)))
     (employerRanking data)"
  using sort_key_lex [OF count_by_first_seen, of "\<lambda>p. - int (snd p)" employer data]
  by (simp add: employerRanking_def sort_count_desc_def)

lemma employerRanking_value:
  "(e, c) \<in> set (employerRanking data) \<Longrightarrow> c = postings_of e data"
  by (simp add: employerRanking_def sort_count_desc_def postings_of_def count_by_value)

text \<open>
  Claim C7. The ranking of employers by posting count is ordered by count descending, and
  employers with equal counts keep the order in which they first appear in the subset:
  of two entries, the earlier one has the larger count, or the same count and the earlier
  first occurrence. Each count is the number of postings of its employer in the subset.
\<close>

theorem ranking_order:
  "\<forall>i j. i < j \<and> j < length (topEmployers data) \<longrightarrow>
     (case (topEmployers data ! i, topEmployers data ! j) of
        ((e1, c1), (e2, c2)) \<Rightarrow>
          c1 = postings_of e1 data \<and> c2 = postings_of e2 data \<and>
          (c1 > c2 \<or>
           (c1 = c2 \<and>
            first_index e1 (map employer data) < first_index e2 (map employer data))))"
proof (intro allI impI)
  fix i j
  assume ij: "i < j \<and> j < length (topEmployers data)"
  let ?r = "employerRanking data"
  from ij have j: "j < length ?r" and i: "i < length ?r" and j8: "j < 8" and i8: "i < 8"
    by (simp_all add: topEmployers_def)
  have ti: "topEmployers data ! i = ?r ! i" and tj: "topEmployers data ! j = ?r ! j"
    using i8 j8 by (simp_all add: topEmployers_def)
  obtain e1 c1 where p1: "?r ! i = (e1, c1)" by (cases "?r ! i")
  obtain e2 c2 where p2: "?r ! j = (e2, c2)" by (cases "?r ! j")
  from p1 i have "(e1, c1) \<in> set ?r" by (metis nth_mem)
  then have v1: "c1 = postings_of e1 data" by (rule employerRanking_value)
  from p2 j have "(e2, c2) \<in> set ?r" by (metis nth_mem)
  then have v2: "c2 = postings_of e2 data" by (rule employerRanking_value)
  from employerRanking_sorted [of data] ij j
  have "snd (?r ! i) > snd (?r ! j) \<or>
       (snd (?r ! i) = snd (?r ! j) \<and>
        first_index (fst (?r ! i)) (map employer data) < first_index (fst (?r ! j)) (map employer data))"
    by (simp add: sorted_wrt_iff_nth_less)
  with p1 p2 v1 v2 ti tj
  show "case (topEmployers data ! i, topEmployers data ! j) of
        ((e1, c1), (e2, c2)) \<Rightarrow>
          c1 = postings_of e1 data \<and> c2 = postings_of e2 data \<and>
          (c1 > c2 \<or>
           (c1 = c2 \<and>
            first_index e1 (map employer data) < first_index e2 (map employer data)))"
    by simp
qed

theorem ranking_order_witness:
  "(1::nat) < 2 \<and> 2 < length (topEmployers employer_sample) \<and>
   topEmployers employer_sample = [(js ''Oracle'', 3), (js ''Intel'', 2), (js ''Amazon'', 2)] \<and>
   postings_of (js ''Intel'') employer_sample = 2 \<and>
   postings_of (js ''Amazon'') employer_sample = 2 \<and>
   first_index (js ''Intel'') (map employer employer_sample)
     < first_index (js ''Amazon'') (map employer employer_sample)"
proof -
  have t: "topEmployers employer_sample = [(js ''Oracle'', 3), (js ''Intel'', 2), (js ''Amazon'', 2)]"
    by (simp add: topEmployers_def employerRanking_def count_by_def employer_sample_def job_of_def
        get_or_0_def js_def sort_count_desc_def)
  have ij: "(1::nat) < 2 \<and> 2 < length (topEmployers employer_sample)"
    by (simp add: t)
  have "case (topEmployers employer_sample ! 1, topEmployers employer_sample ! 2) of
        ((e1, c1), (e2, c2)) \<Rightarrow>
          c1 = postings_of e1 employer_sample \<and> c2 = postings_of e2 employer_sample \<and>
          (c1 > c2 \<or>
           (c1 = c2 \<and>
            first_index e1 (map employer employer_sample)
              < first_index e2 (map employer employer_sample)))"
    using ranking_order [of employer_sample, THEN spec, of 1, THEN spec, of 2] ij
    by (rule mp)
  with ij t show ?thesis by simp
qed

text \<open>
  Claim C9. The employer ranking handed to the chart is cut to at most 8 pairs: it is the
  first 8 entries of the full ranking, which lists every employer of the subset once, and
  no entry that is cut has a larger count than an entry that is kept.
\<close>

theorem top_eight:
  "length (topEmployers data) \<le> 8 \<and>
   topEmployers data = take 8 (employerRanking data) \<and>
   fst ` set (employerRanking data) = employer ` set data \<and>
   distinct (map fst (employerRanking data)) \<and>
   (\<forall>p\<in>set (topEmployers data). \<forall>q\<in>set (drop 8 (employerRanking data)). snd q \<le> snd p)"
proof -
  let ?r = "employerRanking data"
  have keys: "fst ` set ?r = employer ` set data"
    by (simp add: employerRanking_def sort_count_desc_def set_keys_count_by)
  have "mset (map fst ?r) = mset (map fst (count_by employer data))"
    by (simp add: employerRanking_def sort_count_desc_def)
  then have dist: "distinct (map fst ?r)"
    using distinct_count_by [of employer data] by (metis mset_eq_imp_distinct_iff)
  have "sorted_wrt (\<lambda>p q. snd q \<le> snd p) ?r"
    by (rule sorted_wrt_mono_rel [OF _ employerRanking_sorted [of data]]) auto
  then have "sorted_wrt (\<lambda>p q. snd q \<le> snd p) (take 8 ?r @ drop 8 ?r)" by simp
  then have "\<forall>p\<in>set (take 8 ?r). \<forall>q\<in>set (drop 8 ?r). snd q \<le> snd p"
    unfolding sorted_wrt_append by blast
  with keys dist show ?thesis by (simp add: topEmployers_def)
qed

theorem top_eight_witness:
  "(js ''Oracle'', 3) \<in> set (topEmployers many_employers) \<and>
   (js ''Dell'', 1) \<in> set (drop 8 (employerRanking many_employers)) \<and>
   length (employerRanking many_employers) = 9 \<and>
   length (topEmployers many_employers) = 8 \<and>
   snd (js ''Dell'', 1::nat) \<le> snd (js ''Oracle'', 3::nat)"
proof -
  have r: "employerRanking many_employers =
    [(js ''Oracle'', 3), (js ''Intel'', 2), (js ''Amazon'', 2), (js ''Google'', 2),
     (js ''Honeywell'', 1), (js ''Boeing'', 1), (js ''Wells Fargo'', 1), (js ''Banner'', 1),
     (js ''Dell'', 1)]"
    by (simp add: employerRanking_def count_by_def many_employers_def employer_sample_def
        job_of_def get_or_0_def js_def sort_count_desc_def)
  have kept: "(js ''Oracle'', 3) \<in> set (topEmployers many_employers)"
    by (simp add: topEmployers_def r)
  have cut: "(js ''Dell'', 1) \<in> set (drop 8 (employerRanking many_employers))"
    by (simp add: r)
  from top_eight [of many_employers]
  have "\<forall>p\<in>set (topEmployers many_employers).
          \<forall>q\<in>set (drop 8 (employerRanking many_employers)). snd q \<le> snd p"
    by blast
  with kept cut have "snd (js ''Dell'', 1::nat) \<le> snd (js ''Oracle'', 3::nat)"
    by blast
  with kept cut show ?thesis by (simp add: topEmployers_def r)
qed

section \<open>Posting freshness and posting dates\<close>

lemma str_lt_trans: "str_lt a b \<Longrightarrow> str_lt b c \<Longrightarrow> str_lt a c"
proof (induction a b arbitrary: c rule: str_lt.induct)
  case 1
  then show ?case by simp
next
  case (2 b bs)
  then show ?case by (cases c) auto
next
  case (3 a as)
  then show ?case by simp
next
  case (4 a as b bs)
  then show ?case by (cases c) auto
qed

lemma not_in_filter: "filter (\<lambda>j. j \<notin> set (filter P xs)) xs = filter (\<lambda>j. \<not> P j) xs"
  by (rule filter_cong) auto

lemma filter_split: "mset (filter P xs) + mset (filter (\<lambda>x. \<not> P x) xs) = mset xs"
  by (induction xs) auto

lemma loop_length: "length (freshness_loop zone p rs rem) = length rs"
  by (induction zone p rs rem rule: freshness_loop.induct) (simp_all add: Let_def)

lemma loop_nothing: "concat (map (\<lambda>(label, maxDays, ms). ms) (freshness_loop zone p rs [])) = []"
  by (induction zone p rs "[] :: JobRecord list" rule: freshness_loop.induct) (simp_all add: Let_def)

lemma loop_partition:
  "\<exists>label. (label, None) \<in> set rs \<Longrightarrow>
   mset (concat (map (\<lambda>(label, maxDays, ms). ms) (freshness_loop zone p rs rem))) = mset rem"
proof (induction zone p rs rem rule: freshness_loop.induct)
  case (1 zone prevMax remaining)
  then show ?case by simp
next
  case (2 zone prevMax label rs remaining)
  show ?case by (simp add: loop_nothing)
next
  case (3 zone prevMax label maxDays rs remaining)
  let ?P = "\<lambda>j. if prevMax = 0 then str_ge (datePosted j) (cutoffStr zone maxDays)
                 else str_ge (datePosted j) (cutoffStr zone maxDays) \<and>
                      str_lt (datePosted j) (prevStr zone prevMax)"
  let ?matching = "filter ?P remaining"
  let ?rest = "filter (\<lambda>j. j \<notin> set ?matching) remaining"
  from "3.prems" have "\<exists>label. (label, None) \<in> set rs" by auto
  with "3.IH" [of ?matching]
  have "mset (concat (map (\<lambda>(label, maxDays, ms). ms) (freshness_loop zone maxDays rs ?rest)))
        = mset ?rest"
    by simp
  moreover have "mset ?matching + mset ?rest = mset remaining"
    by (simp only: not_in_filter filter_split)
  ultimately show ?case by (simp add: Let_def)
qed

lemma sum_counts:
  "sum_list (map (\<lambda>(label, maxDays, count). count)
      (map (\<lambda>(label, maxDays, ms). (label, maxDays, length ms)) xs)) =
   length (concat (map (\<lambda>(label, maxDays, ms). ms) xs))"
  by (induction xs) auto

lemma west_day:
  assumes "- 1440 < z" "z \<le> 0"
  shows "(d * 86400000 - z * 60000) div 86400000 = (d::int)"
proof -
  have "(d * 86400000 - z * 60000) div 86400000 = (- z * 60000 + d * 86400000) div 86400000"
    by (simp add: algebra_simps)
  also have "\<dots> = d + (- z * 60000) div 86400000" by (rule div_mult_self1) simp
  also have "(- z * 60000) div 86400000 = 0" using assms by (intro div_pos_pos_trivial) auto
  finally show ?thesis by simp
qed

lemma east_day:
  assumes "0 < z" "z < 1440"
  shows "(d * 86400000 - z * 60000) div 86400000 = (d::int) - 1"
proof -
  have "(d * 86400000 - z * 60000) div 86400000 =
        ((86400000 - z * 60000) + (d - 1) * 86400000) div 86400000"
    by (simp add: algebra_simps)
  also have "\<dots> = (d - 1) + (86400000 - z * 60000) div 86400000" by (rule div_mult_self1) simp
  also have "(86400000 - z * 60000) div 86400000 = 0" using assms by (intro div_pos_pos_trivial) auto
  finally show ?thesis by simp
qed

lemma iso_date_cong: "a div 86400000 = b div 86400000 \<Longrightarrow> iso_date a = iso_date b"
  by (simp add: iso_date_def)

lemma pad_2: "pad 2 k = [48 + k div 10 mod 10, 48 + k mod 10]"
proof -
  have "pad (Suc (Suc 0)) k = [48 + k div 10 mod 10, 48 + k mod 10]" by simp
  moreover have "(2::nat) = Suc (Suc 0)" by simp
  ultimately show ?thesis by (simp only:)
qed

lemma pad_4:
  "pad 4 k = [48 + k div 10 div 10 div 10 mod 10, 48 + k div 10 div 10 mod 10,
              48 + k div 10 mod 10, 48 + k mod 10]"
proof -
  have "pad (Suc (Suc (Suc (Suc 0)))) k =
        [48 + k div 10 div 10 div 10 mod 10, 48 + k div 10 div 10 mod 10,
         48 + k div 10 mod 10, 48 + k mod 10]" by simp
  moreover have "(4::nat) = Suc (Suc (Suc (Suc 0)))" by simp
  ultimately show ?thesis by (simp only:)
qed

lemma iso_date_of_day:
  assumes "civil_from_days k = (y, m, d)" and "0 \<le> y" and "y \<le> 9999"
  shows "iso_date (k * 86400000) = pad 4 (nat y) @ [45] @ pad 2 (nat m) @ [45] @ pad 2 (nat d)"
  using assms by (simp add: iso_date_def pad_2 pad_4)

lemma civil_days:
  "civil_from_days 20506 = (2026, 2, 22)" "civil_from_days 20501 = (2026, 2, 17)"
  "civil_from_days 20481 = (2026, 1, 28)" "civil_from_days 20451 = (2025, 12, 29)"
  "civil_from_days 20505 = (2026, 2, 21)" "civil_from_days 20500 = (2026, 2, 16)"
  "civil_from_days 20480 = (2026, 1, 27)" "civil_from_days 20450 = (2025, 12, 28)"
  by code_simp+

lemma iso_days:
  "iso_date (20506 * 86400000) = js ''2026-02-22''" "iso_date (20501 * 86400000) = js ''2026-02-17''"
  "iso_date (20481 * 86400000) = js ''2026-01-28''" "iso_date (20451 * 86400000) = js ''2025-12-29''"
  "iso_date (20505 * 86400000) = js ''2026-02-21''" "iso_date (20500 * 86400000) = js ''2026-02-16''"
  "iso_date (20480 * 86400000) = js ''2026-01-27''" "iso_date (20450 * 86400000) = js ''2025-12-28''"
  by (simp_all only: iso_date_of_day [OF civil_days(1)] iso_date_of_day [OF civil_days(2)]
       iso_date_of_day [OF civil_days(3)] iso_date_of_day [OF civil_days(4)]
       iso_date_of_day [OF civil_days(5)] iso_date_of_day [OF civil_days(6)]
       iso_date_of_day [OF civil_days(7)] iso_date_of_day [OF civil_days(8)])
     (simp_all add: pad_2 pad_4 js_def)

lemma today_day_val: "today_day = 20511"
  by code_simp

lemma cutoff_west:
  assumes "\<forall>d. - 1440 < zone d \<and> zone d \<le> 0"
  shows "cutoffStr zone n = iso_date ((20511 - int n) * 86400000)"
    and "0 < n \<Longrightarrow> prevStr zone n = iso_date ((20511 - int n) * 86400000)"
proof -
  from assms have z: "- 1440 < zone d" "zone d \<le> 0" for d by simp_all
  have whole: "(k * 86400000) div 86400000 = k" for k :: int by simp
  show "cutoffStr zone n = iso_date ((20511 - int n) * 86400000)"
    unfolding cutoffStr_def local_midnight_def today_day_val
    by (rule iso_date_cong) (simp only: west_day [OF z] whole)
  have "(20511 * 86400000 - zone 20511 * 60000 - int n * 86400000) =
        ((20511 - int n) * 86400000 - zone 20511 * 60000)"
    by (simp add: algebra_simps)
  then have "(20511 * 86400000 - zone 20511 * 60000 - int n * 86400000) div 86400000 = 20511 - int n"
    by (simp only: west_day [OF z])
  also have "\<dots> = ((20511 - int n) * 86400000) div 86400000"
    by (simp only: whole)
  finally show "0 < n \<Longrightarrow> prevStr zone n = iso_date ((20511 - int n) * 86400000)"
    unfolding prevStr_def today_def local_midnight_def today_day_val
    by (simp add: iso_date_cong)
qed

lemma cutoff_east:
  assumes "\<forall>d. 0 < zone d \<and> zone d < 1440"
  shows "cutoffStr zone n = iso_date ((20510 - int n) * 86400000)"
    and "0 < n \<Longrightarrow> prevStr zone n = iso_date ((20510 - int n) * 86400000)"
proof -
  from assms have z: "0 < zone d" "zone d < 1440" for d by simp_all
  have whole: "(k * 86400000) div 86400000 = k" for k :: int by simp
  have l: "((20511 - int n) * 86400000 - zone (20511 - int n) * 60000) div 86400000
           = 20511 - int n - 1"
    by (rule east_day [OF z])
  have "20511 - int n - 1 = 20510 - int n" by simp
  with l have "((20511 - int n) * 86400000 - zone (20511 - int n) * 60000) div 86400000
           = ((20510 - int n) * 86400000) div 86400000"
    by (simp only: whole)
  then show "cutoffStr zone n = iso_date ((20510 - int n) * 86400000)"
    unfolding cutoffStr_def local_midnight_def today_day_val
    by (rule iso_date_cong)
  have "(20511 * 86400000 - zone 20511 * 60000 - int n * 86400000) =
        ((20511 - int n) * 86400000 - zone 20511 * 60000)"
    by (simp add: algebra_simps)
  then have "(20511 * 86400000 - zone 20511 * 60000 - int n * 86400000) div 86400000
             = 20511 - int n - 1"
    by (simp only: east_day [OF z])
  also have "\<dots> = ((20510 - int n) * 86400000) div 86400000"
    by (simp only: whole)
  finally show "0 < n \<Longrightarrow> prevStr zone n = iso_date ((20510 - int n) * 86400000)"
    unfolding prevStr_def today_def local_midnight_def today_day_val
    by (simp add: iso_date_cong)
qed

lemma bucket_counts_edges:
  assumes p: "prevStr zone 5 = cutoffStr zone 5" "prevStr zone 10 = cutoffStr zone 10"
      "prevStr zone 30 = cutoffStr zone 30"
    and lt: "str_lt (cutoffStr zone 10) (cutoffStr zone 5)"
      "str_lt (cutoffStr zone 30) (cutoffStr zone 10)"
      "str_lt (cutoffStr zone 60) (cutoffStr zone 30)"
  shows "bucket_counts zone data =
         edge_counts (cutoffStr zone 5) (cutoffStr zone 10) (cutoffStr zone 30) (cutoffStr zone 60) data"
proof -
  have t1: "str_lt d (cutoffStr zone 10) \<Longrightarrow> str_lt d (cutoffStr zone 5)" for d
    using lt(1) by (rule str_lt_trans [rotated])
  have t2: "str_lt d (cutoffStr zone 30) \<Longrightarrow> str_lt d (cutoffStr zone 10)" for d
    using lt(2) by (rule str_lt_trans [rotated])
  have t3: "str_lt d (cutoffStr zone 60) \<Longrightarrow> str_lt d (cutoffStr zone 30)" for d
    using lt(3) by (rule str_lt_trans [rotated])
  show ?thesis
    unfolding bucket_counts_def PostingFreshness_def ranges_def edge_counts_def
    using t1 t2 t3
    by (auto simp: Let_def not_in_filter p str_ge_def intro!: arg_cong [where f = length] filter_cong)
qed


lemma split_partition: "mset (concat (freshness_split zone data)) = mset data"
proof -
  have "\<exists>label. (label, None) \<in> set ranges" by (auto simp: ranges_def)
  then show ?thesis unfolding freshness_split_def by (rule loop_partition)
qed

lemma split_length: "length (freshness_split zone data) = 5"
  by (simp add: freshness_split_def loop_length) (simp add: ranges_def)

lemma counts_of_split: "bucket_counts zone data = map length (freshness_split zone data)"
  by (simp add: bucket_counts_def PostingFreshness_def freshness_split_def split_def)

lemma bucket_counts_west:
  assumes "\<forall>d. - 1440 < zone d \<and> zone d \<le> 0"
  shows "bucket_counts zone data =
         edge_counts (js ''2026-02-22'') (js ''2026-02-17'') (js ''2026-01-28'') (js ''2025-12-29'') data"
proof -
  have c: "cutoffStr zone 5 = js ''2026-02-22''" "cutoffStr zone 10 = js ''2026-02-17''"
      "cutoffStr zone 30 = js ''2026-01-28''" "cutoffStr zone 60 = js ''2025-12-29''"
    using cutoff_west(1) [OF assms, of 5] cutoff_west(1) [OF assms, of 10]
      cutoff_west(1) [OF assms, of 30] cutoff_west(1) [OF assms, of 60] iso_days
    by simp_all
  have p: "prevStr zone 5 = js ''2026-02-22''" "prevStr zone 10 = js ''2026-02-17''"
      "prevStr zone 30 = js ''2026-01-28''"
    using cutoff_west(2) [OF assms, of 5] cutoff_west(2) [OF assms, of 10]
      cutoff_west(2) [OF assms, of 30] iso_days
    by simp_all
  have lt: "str_lt (js ''2026-02-17'') (js ''2026-02-22'')"
      "str_lt (js ''2026-01-28'') (js ''2026-02-17'')"
      "str_lt (js ''2025-12-29'') (js ''2026-01-28'')"
    by (simp_all add: js_def)
  show ?thesis
    using bucket_counts_edges [of zone data] by (simp only: c p lt simp_thms)
qed

lemma bucket_counts_east:
  assumes "\<forall>d. 0 < zone d \<and> zone d < 1440"
  shows "bucket_counts zone data =
         edge_counts (js ''2026-02-21'') (js ''2026-02-16'') (js ''2026-01-27'') (js ''2025-12-28'') data"
proof -
  have c: "cutoffStr zone 5 = js ''2026-02-21''" "cutoffStr zone 10 = js ''2026-02-16''"
      "cutoffStr zone 30 = js ''2026-01-27''" "cutoffStr zone 60 = js ''2025-12-28''"
    using cutoff_east(1) [OF assms, of 5] cutoff_east(1) [OF assms, of 10]
      cutoff_east(1) [OF assms, of 30] cutoff_east(1) [OF assms, of 60] iso_days
    by simp_all
  have p: "prevStr zone 5 = js ''2026-02-21''" "prevStr zone 10 = js ''2026-02-16''"
      "prevStr zone 30 = js ''2026-01-27''"
    using cutoff_east(2) [OF assms, of 5] cutoff_east(2) [OF assms, of 10]
      cutoff_east(2) [OF assms, of 30] iso_days
    by simp_all
  have lt: "str_lt (js ''2026-02-16'') (js ''2026-02-21'')"
      "str_lt (js ''2026-01-27'') (js ''2026-02-16'')"
      "str_lt (js ''2025-12-28'') (js ''2026-01-27'')"
    by (simp_all add: js_def)
  show ?thesis
    using bucket_counts_edges [of zone data] by (simp only: c p lt simp_thms)
qed

lemma phoenix_west: "\<forall>d. - 1440 < phoenix d \<and> phoenix d \<le> 0"
  by (simp add: phoenix_def)

lemma dated_sample_west:
  "edge_counts (js ''2026-02-22'') (js ''2026-02-17'') (js ''2026-01-28'') (js ''2025-12-29'')
     dated_sample = [4, 2, 2, 2, 1]"
  by (simp add: edge_counts_def dated_sample_def job_on_def js_def str_ge_def)

lemma dated_sample_east:
  "edge_counts (js ''2026-02-21'') (js ''2026-02-16'') (js ''2026-01-27'') (js ''2025-12-28'')
     dated_sample = [5, 2, 2, 2, 0]"
  by (simp add: edge_counts_def dated_sample_def job_on_def js_def str_ge_def)

lemma filteredJobs_date_only:
  assumes "no_restriction jobs st"
  shows "filteredJobs lc jobs (st\<lparr>dateFrom := a, dateTo := b\<rparr>) =
         filter (\<lambda>j. (a = [] \<or> str_ge (datePosted j) a) \<and> (b = [] \<or> str_le (datePosted j) b)) jobs"
  using assms
  by (auto simp: no_restriction_def filteredJobs_def Let_def card_getUniqueValues js_def
      intro!: filter_cong)

lemma initial_unrestricted: "no_restriction jobs (initial_state jobs)"
  by (simp add: no_restriction_def initial_state_def trim_def)

text \<open>
  Claim C3. The five freshness counts of a subset sum to the size of the subset: the five
  ranges take their records from what the ranges before left, the last range takes all
  that is left, so the five lists of counted records together hold every record of the
  subset exactly once.
\<close>

theorem freshness_partition:
  "length (PostingFreshness zone data) = 5 \<and>
   sum_list (bucket_counts zone data) = length data \<and>
   bucket_counts zone data = map length (freshness_split zone data) \<and>
   mset (concat (freshness_split zone data)) = mset data"
proof -
  have len: "length (PostingFreshness zone data) = 5"
    by (simp add: PostingFreshness_def loop_length) (simp add: ranges_def)
  have "sum_list (bucket_counts zone data) = length (concat (freshness_split zone data))"
    unfolding bucket_counts_def PostingFreshness_def freshness_split_def by (rule sum_counts)
  also have "\<dots> = size (mset (concat (freshness_split zone data)))" by simp
  also have "\<dots> = length data" by (simp only: split_partition size_mset)
  finally show ?thesis using len counts_of_split split_partition by simp
qed

theorem freshness_partition_witness:
  "bucket_counts phoenix dated_sample = [4, 2, 2, 2, 1] \<and>
   sum_list (bucket_counts phoenix dated_sample) = length dated_sample \<and>
   length dated_sample = 11"
proof -
  have "bucket_counts phoenix dated_sample = [4, 2, 2, 2, 1]"
    by (simp only: bucket_counts_west [OF phoenix_west] dated_sample_west)
  moreover have "length dated_sample = 11" by (simp add: dated_sample_def)
  ultimately show ?thesis using freshness_partition [of phoenix dated_sample] by simp
qed

text \<open>
  Claim C10. The freshness ranges are cut relative to the fixed date 2026-02-27, local
  midnight, and to nothing else: in a time zone at or behind UTC the five counts are the
  counts of the postings dated from 2026-02-22 on, from 2026-02-17, from 2026-01-28, from
  2025-12-29 and before that, which are 5, 10, 30 and 60 days before 2026-02-27; in a time
  zone ahead of UTC every edge lies one day earlier, as the cut-off is read in UTC.
\<close>

theorem freshness_fixed_reference:
  "((\<forall>d. - 1440 < zone d \<and> zone d \<le> 0) \<longrightarrow>
      bucket_counts zone data =
        edge_counts (js ''2026-02-22'') (js ''2026-02-17'') (js ''2026-01-28'') (js ''2025-12-29'')
          data) \<and>
   ((\<forall>d. 0 < zone d \<and> zone d < 1440) \<longrightarrow>
      bucket_counts zone data =
        edge_counts (js ''2026-02-21'') (js ''2026-02-16'') (js ''2026-01-27'') (js ''2025-12-28'')
          data)"
  using bucket_counts_west [of zone data] bucket_counts_east [of zone data] by blast

theorem freshness_fixed_reference_witness:
  "(\<forall>d. - 1440 < phoenix d \<and> phoenix d \<le> 0) \<and>
   bucket_counts phoenix dated_sample = [4, 2, 2, 2, 1] \<and>
   (\<forall>d. 0 < (\<lambda>day. 60 :: int) d \<and> (\<lambda>day. 60 :: int) d < 1440) \<and>
   bucket_counts (\<lambda>day. 60) dated_sample = [5, 2, 2, 2, 0]"
proof -
  have e: "\<forall>d. 0 < (\<lambda>day. 60 :: int) d \<and> (\<lambda>day. 60 :: int) d < 1440" by simp
  from freshness_fixed_reference [of phoenix dated_sample] phoenix_west
  have "bucket_counts phoenix dated_sample = [4, 2, 2, 2, 1]"
    by (simp only: dated_sample_west simp_thms)
  moreover from freshness_fixed_reference [of "\<lambda>day. 60" dated_sample] e
  have "bucket_counts (\<lambda>day. 60) dated_sample = [5, 2, 2, 2, 0]"
    by (simp only: dated_sample_east simp_thms)
  ultimately show ?thesis using phoenix_west e by simp
qed

text \<open>
  Claim C2, as the code has it. The posting date is never parsed and no record is skipped
  for its date: with the other dimensions unrestricted, the date bounds keep exactly the
  records whose \<^verbatim>\<open>datePosted\<close>, compared as a string, lies within the bounds that are
  set, and the freshness ranges count every record of the subset, whatever its
  \<^verbatim>\<open>datePosted\<close>, in one of the five ranges. No list of skipped records exists.
\<close>

theorem dates_read_as_strings:
  assumes "no_restriction jobs st"
  shows "filteredJobs lc jobs (st\<lparr>dateFrom := a, dateTo := b\<rparr>) =
           filter (\<lambda>j. (a = [] \<or> str_ge (datePosted j) a) \<and>
                        (b = [] \<or> str_le (datePosted j) b)) jobs \<and>
         (\<forall>j\<in>set data. \<exists>i<5. j \<in> set (freshness_split zone data ! i))"
proof -
  have "\<exists>i<5. j \<in> set (freshness_split zone data ! i)" if "j \<in> set data" for j
  proof -
    from that have "j \<in># mset (concat (freshness_split zone data))"
      by (simp only: split_partition) simp
    then have "j \<in> set (concat (freshness_split zone data))" by simp
    then obtain ms where "ms \<in> set (freshness_split zone data)" and "j \<in> set ms" by auto
    then show ?thesis by (metis in_set_conv_nth split_length)
  qed
  with filteredJobs_date_only [OF assms] show ?thesis by blast
qed

theorem dates_read_as_strings_witness:
  "no_restriction dated_sample (initial_state dated_sample) \<and>
   job_on 10 ''soon'' \<in> set dated_sample \<and>
   map id_num (filteredJobs (map to_lower_unit) dated_sample
     ((initial_state dated_sample)\<lparr>dateFrom := js ''2026-02-20'', dateTo := []\<rparr>))
     = [1, 2, 3, 10, 11] \<and>
   (\<exists>i<5. job_on 10 ''soon'' \<in> set (freshness_split phoenix dated_sample ! i))"
proof -
  have m: "job_on 10 ''soon'' \<in> set dated_sample" by (simp add: dated_sample_def)
  have f: "map id_num (filter (\<lambda>j. (js ''2026-02-20'' = [] \<or> str_ge (datePosted j) (js ''2026-02-20'')) \<and>
                        ([] = [] \<or> str_le (datePosted j) [])) dated_sample) = [1, 2, 3, 10, 11]"
    by (simp add: dated_sample_def job_on_def js_def str_ge_def)
  from dates_read_as_strings [OF initial_unrestricted,
      where lc = "map to_lower_unit" and jobs = dated_sample and a = "js ''2026-02-20''"
        and b = "[]" and data = dated_sample and zone = phoenix]
    m f initial_unrestricted [of dated_sample]
  show ?thesis by simp
qed

theorem malformed_date_counterexample:
  "\<not> spec_calendar_date (datePosted (job_on 10 ''soon'')) \<and>
   job_on 10 ''soon'' \<in> set (filteredJobs (map to_lower_unit) [job_on 10 ''soon'']
     ((initial_state [job_on 10 ''soon''])\<lparr>dateFrom := js ''2026-02-20'', dateTo := []\<rparr>)) \<and>
   bucket_counts phoenix [job_on 10 ''soon''] = [1, 0, 0, 0, 0]"
proof -
  have "\<not> spec_calendar_date (datePosted (job_on 10 ''soon''))"
    by (simp add: spec_calendar_date_def job_on_def js_def)
  moreover have "job_on 10 ''soon'' \<in> set (filteredJobs (map to_lower_unit) [job_on 10 ''soon'']
     ((initial_state [job_on 10 ''soon''])\<lparr>dateFrom := js ''2026-02-20'', dateTo := []\<rparr>))"
    by (simp only: filteredJobs_date_only [OF initial_unrestricted])
       (simp add: job_on_def js_def str_ge_def)
  moreover have "bucket_counts phoenix [job_on 10 ''soon''] = [1, 0, 0, 0, 0]"
    by (simp only: bucket_counts_west [OF phoenix_west])
       (simp add: edge_counts_def job_on_def js_def str_ge_def)
  ultimately show ?thesis by simp
qed

section \<open>Top job phrases: support, limit and containment\<close>

lemma starts_with_refl: "starts_with s s"
  by (induction s) simp_all

lemma str_includes_refl: "str_includes s s"
  by (cases s) (simp_all add: starts_with_refl)

lemma dominated_by_iff:
  "dominated_by selected phrase cnt covered \<longleftrightarrow>
   (\<exists>existing\<in>set covered.
      str_includes existing phrase \<or>
      (str_includes phrase existing \<and> cnt \<ge> existingCount selected existing))"
  by (induction covered) auto

lemma existingCount_member:
  "distinct (map fst selected) \<Longrightarrow> (p, c) \<in> set selected \<Longrightarrow> existingCount selected p = c"
proof (induction selected)
  case Nil
  then show ?case by simp
next
  case (Cons x xs)
  then show ?case by (cases x) (force simp: existingCount_def)
qed

lemma select_loop_kept:
  assumes "sorted_wrt kept_rel selected" and "covered = map fst selected"
    and "distinct (map fst selected)"
  shows "sorted_wrt kept_rel (select_loop cands selected covered)"
  using assms
proof (induction cands arbitrary: selected covered)
  case Nil
  then show ?case by simp
next
  case (Cons pc cands)
  obtain phrase cnt where pc: "pc = (phrase, cnt)" by (cases pc)
  show ?case
  proof (cases "dominated_by selected phrase cnt covered")
    case True
    with Cons pc show ?thesis by (simp add: Let_def)
  next
    case False
    then have nd: "\<forall>existing\<in>set covered.
        \<not> str_includes existing phrase \<and>
        (str_includes phrase existing \<longrightarrow> cnt < existingCount selected existing)"
      by (auto simp: dominated_by_iff)
    have new: "phrase \<notin> set covered"
      using nd str_includes_refl by blast
    have rel: "kept_rel x (phrase, cnt)" if "x \<in> set selected" for x
    proof -
      obtain p c where x: "x = (p, c)" by (cases x)
      with that Cons.prems have "p \<in> set covered" by force
      moreover from that x Cons.prems have "existingCount selected p = c"
        by (simp add: existingCount_member)
      ultimately show ?thesis using nd x by (auto simp: kept_rel_def)
    qed
    let ?sel = "selected @ [(phrase, cnt)]"
    have s: "sorted_wrt kept_rel ?sel"
      using Cons.prems(1) rel by (simp add: sorted_wrt_append)
    have c: "set_add phrase covered = map fst ?sel"
      using new Cons.prems(2) by (simp add: set_add_def)
    have d: "distinct (map fst ?sel)"
      using new Cons.prems by simp
    from Cons.IH [OF s c d] s False pc show ?thesis by (simp add: Let_def)
  qed
qed

lemma select_loop_subset:
  "set (select_loop cands selected covered) \<subseteq> set selected \<union> set cands"
proof (induction cands arbitrary: selected covered)
  case Nil
  show ?case by simp
next
  case (Cons pc cands)
  obtain phrase cnt where pc: "pc = (phrase, cnt)" by (cases pc)
  show ?case
    using Cons.IH [of "selected @ [(phrase, cnt)]" "set_add phrase covered"]
      Cons.IH [of selected covered] pc
    by (auto simp: Let_def)
qed

lemma select_loop_length:
  "length selected < 15 \<Longrightarrow> length (select_loop cands selected covered) \<le> 15"
proof (induction cands arbitrary: selected covered)
  case Nil
  then show ?case by simp
next
  case (Cons pc cands)
  obtain phrase cnt where pc: "pc = (phrase, cnt)" by (cases pc)
  show ?case
  proof (cases "dominated_by selected phrase cnt covered")
    case True
    with Cons pc show ?thesis by (simp add: Let_def)
  next
    case False
    show ?thesis
    proof (cases "length selected + 1 \<ge> 15")
      case True
      with False Cons.prems pc show ?thesis by (simp add: Let_def)
    next
      case False
      then have "length (selected @ [(phrase, cnt)]) < 15" by simp
      from Cons.IH [OF this] \<open>\<not> dominated_by selected phrase cnt covered\<close> False pc
      show ?thesis by (simp add: Let_def)
    qed
  qed
qed

lemma set_set_add: "set (set_add x s) = insert x (set s)"
  by (auto simp: set_add_def)

lemma phrase_fold_get:
  "get_or_0 (fst (foldl phrase_step (counts, seen) ps)) p =
   get_or_0 counts p + (if p \<in> set ps \<and> p \<notin> set seen then 1 else 0)"
proof (induction ps arbitrary: counts seen)
  case Nil
  show ?case by simp
next
  case (Cons q ps)
  show ?case
  proof (cases "q \<in> set seen")
    case True
    then have "foldl phrase_step (counts, seen) (q # ps) = foldl phrase_step (counts, seen) ps"
      by (simp add: phrase_step_def)
    with Cons.IH [of counts seen] True show ?thesis by auto
  next
    case False
    then have "foldl phrase_step (counts, seen) (q # ps) =
        foldl phrase_step (map_set q (get_or_0 counts q + 1) counts, set_add q seen) ps"
      by (simp add: phrase_step_def)
    with Cons.IH [of "map_set q (get_or_0 counts q + 1) counts" "set_add q seen"] False
    show ?thesis by (auto simp: set_set_add get_or_0_def map_of_map_set)
  qed
qed

lemma phrase_fold_distinct:
  "distinct (map fst counts) \<Longrightarrow> distinct (map fst (fst (foldl phrase_step (counts, seen) ps)))"
proof (induction ps arbitrary: counts seen)
  case Nil
  then show ?case by simp
next
  case (Cons q ps)
  then show ?case
    by (cases "q \<in> set seen") (simp_all add: phrase_step_def fst_map_set distinct_set_add)
qed

lemma titles_fold_get:
  "get_or_0 (foldl (\<lambda>counts j. fst (foldl phrase_step (counts, []) (title_phrases (cleanTitle (jobTitle j)))))
       m data) p =
   get_or_0 m p + length (filter (\<lambda>j. p \<in> set (title_phrases (cleanTitle (jobTitle j)))) data)"
  by (induction data arbitrary: m) (simp_all add: phrase_fold_get)

lemma titles_fold_distinct:
  "distinct (map fst m) \<Longrightarrow>
   distinct (map fst (foldl (\<lambda>counts j. fst (foldl phrase_step (counts, []) (title_phrases (cleanTitle (jobTitle j)))))
       m data))"
  by (induction data arbitrary: m) (simp_all add: phrase_fold_distinct)

lemma phraseCounts_support:
  assumes "(p, c) \<in> set (phraseCounts data)"
  shows "c = support p data"
proof -
  have "distinct (map fst (phraseCounts data))"
    unfolding phraseCounts_def by (rule titles_fold_distinct) simp
  with assms have "map_of (phraseCounts data) p = Some c" by simp
  then have "get_or_0 (phraseCounts data) p = c" by (simp add: get_or_0_def)
  moreover have "get_or_0 (phraseCounts data) p = get_or_0 [] p + support p data"
    unfolding phraseCounts_def support_def by (rule titles_fold_get)
  ultimately show ?thesis by (simp add: get_or_0_def)
qed

lemma candidates_member:
  assumes "(p, c) \<in> set (candidates data)"
  shows "2 \<le> c \<and> c = support p data"
proof -
  from assms have "(p, c) \<in> set (phraseCounts data)" and "2 \<le> c"
    by (auto simp: candidates_def sort_count_desc_def)
  then show ?thesis by (simp add: phraseCounts_support)
qed

lemma selected_member:
  assumes "(p, c) \<in> set (selected_phrases data)"
  shows "2 \<le> c \<and> c = support p data"
proof -
  from assms select_loop_subset [of "candidates data" "[]" "[]"]
  have "(p, c) \<in> set (candidates data)" by (auto simp: selected_phrases_def)
  then show ?thesis by (rule candidates_member)
qed

lemma support_le: "support p data \<le> length data"
  by (simp add: support_def)

lemmas clean_defs = cleanTitle_def js_def split_spaces_def is_space_def is_letter_def
  to_lower_unit_def stopWords_def

lemma sample_titles:
  "cleanTitle (js ''Data Center Engineer'') = [js ''data'', js ''center'', js ''engineer'']"
  "cleanTitle (js ''Senior Data-Center Engineer'') = [js ''data'', js ''center'', js ''engineer'']"
  "cleanTitle (js ''Data Center'') = [js ''data'', js ''center'']"
  "cleanTitle (js ''Center Engineer'') = [js ''center'', js ''engineer'']"
  by (simp_all add: clean_defs)

lemma sample_phrases:
  "title_phrases [js ''data'', js ''center'', js ''engineer''] =
     [js ''data center'', js ''center engineer'', js ''data center engineer'']"
  "title_phrases [js ''data'', js ''center''] = [js ''data center'']"
  "title_phrases [js ''center'', js ''engineer''] = [js ''center engineer'']"
  by (simp_all add: title_phrases_def js_def upt_rec)

lemma sample_counts:
  "phraseCounts title_sample =
     [(js ''data center'', 3), (js ''center engineer'', 3), (js ''data center engineer'', 2)]"
  unfolding phraseCounts_def title_sample_def job_titled_def
  by (simp add: sample_titles sample_phrases) (simp add: phrase_step_def js_def get_or_0_def set_add_def)

lemma sample_candidates:
  "candidates title_sample =
     [(js ''data center'', 3), (js ''center engineer'', 3), (js ''data center engineer'', 2)]"
  by (simp add: candidates_def sample_counts sort_count_desc_def)

lemma sample_selected:
  "selected_phrases title_sample =
      [(js ''data center'', 3), (js ''center engineer'', 3), (js ''data center engineer'', 2)]"
  unfolding selected_phrases_def sample_candidates
  by (simp add: js_def Let_def existingCount_def set_add_def)

lemma sample_keywords:
  "TopKeywords title_sample =
     [(js ''Data Center'', 3), (js ''Center Engineer'', 3), (js ''Data Center Engineer'', 2)]"
  unfolding TopKeywords_def sample_selected
  by (simp add: js_def title_case_def is_word_def is_letter_def to_upper_unit_def)

lemma sample_includes: "str_includes (js ''Data Center Engineer'') (js ''Data Center'')"
   "str_includes (js ''data center engineer'') (js ''data center'')"
   "\<not> str_includes (js ''data center'') (js ''data center engineer'')"
  by (simp_all add: js_def)

text \<open>
  Claim C5. Every phrase the extractor emits has support at least 2, the support being
  the number of titles that yield the phrase, each title counted once however often the
  phrase occurs in it; at most 15 phrases are emitted; a subset of fewer than 2 records
  yields no phrase.
\<close>

theorem phrase_support:
  "(\<forall>(p, c)\<in>set (selected_phrases data). 2 \<le> c \<and> c = support p data) \<and>
   (\<forall>(w, c)\<in>set (TopKeywords data). 2 \<le> c) \<and>
   length (TopKeywords data) \<le> 15 \<and>
   (length data < 2 \<longrightarrow> TopKeywords data = [])"
proof -
  have a: "\<forall>(p, c)\<in>set (selected_phrases data). 2 \<le> c \<and> c = support p data"
    using selected_member by blast
  then have b: "\<forall>(w, c)\<in>set (TopKeywords data). 2 \<le> c"
    by (auto simp: TopKeywords_def)
  have c: "length (TopKeywords data) \<le> 15"
    by (simp add: TopKeywords_def selected_phrases_def select_loop_length)
  have d: "TopKeywords data = []" if small: "length data < 2"
  proof (cases "selected_phrases data")
    case Nil
    then show ?thesis by (simp add: TopKeywords_def)
  next
    case (Cons x xs)
    obtain p k where "x = (p, k)" by (cases x)
    with Cons have "(p, k) \<in> set (selected_phrases data)" by simp
    then have "2 \<le> support p data" using selected_member by blast
    with support_le [of p data] small show ?thesis by simp
  qed
  from a b c d show ?thesis by blast
qed

theorem phrase_support_witness:
  "(js ''data center'', 3) \<in> set (selected_phrases title_sample) \<and>
   support (js ''data center'') title_sample = 3 \<and>
   (js ''Data Center'', 3) \<in> set (TopKeywords title_sample) \<and>
   length [job_titled 1 ''Data Center Engineer''] < 2 \<and>
   TopKeywords [job_titled 1 ''Data Center Engineer''] = []"
proof -
  have m: "(js ''data center'', 3) \<in> set (selected_phrases title_sample)"
    by (simp add: sample_selected)
  have t: "(js ''Data Center'', 3) \<in> set (TopKeywords title_sample)"
    by (simp add: sample_keywords)
  have "case (js ''data center'', 3::nat) of (p, c) \<Rightarrow> 2 \<le> c \<and> c = support p title_sample"
    using phrase_support [of title_sample, THEN conjunct1] m by (rule bspec)
  then have "support (js ''data center'') title_sample = 3" by simp
  moreover from phrase_support [of "[job_titled 1 ''Data Center Engineer'']"]
  have "TopKeywords [job_titled 1 ''Data Center Engineer''] = []" by simp
  ultimately show ?thesis using m t by simp
qed

text \<open>
  What the selection loop does keep: of two kept phrases, the one kept later is no
  substring of the one kept earlier, and where it contains the one kept earlier its count
  is strictly smaller.
\<close>

lemma kept_pairs_invariant:
  "\<forall>i j. i < j \<and> j < length (selected_phrases data) \<longrightarrow>
     (case (selected_phrases data ! i, selected_phrases data ! j) of
        ((p1, c1), (p2, c2)) \<Rightarrow>
          \<not> str_includes p1 p2 \<and> (str_includes p2 p1 \<longrightarrow> c2 < c1))"
proof (intro allI impI)
  fix i j
  assume ij: "i < j \<and> j < length (selected_phrases data)"
  have "sorted_wrt kept_rel (selected_phrases data)"
    unfolding selected_phrases_def by (rule select_loop_kept) simp_all
  with ij have "kept_rel (selected_phrases data ! i) (selected_phrases data ! j)"
    by (simp add: sorted_wrt_iff_nth_less)
  then show "case (selected_phrases data ! i, selected_phrases data ! j) of
        ((p1, c1), (p2, c2)) \<Rightarrow>
          \<not> str_includes p1 p2 \<and> (str_includes p2 p1 \<longrightarrow> c2 < c1)"
    by (simp add: kept_rel_def split_def)
qed

text \<open>
  Claim C1. The emitted list is to hold no two phrases of which one is a substring of the
  other: a candidate that contains a kept phrase, or is contained in one, is to be
  dropped. The code does not keep to this. On the titles "Data Center Engineer", "Senior
  Data-Center Engineer", "Data Center" and "Center Engineer" it emits "Data Center" (3),
  "Center Engineer" (3) and "Data Center Engineer" (2): the candidate "data center
  engineer" contains both kept phrases and is not dominated, since the longer candidate
  is dropped only under \<^verbatim>\<open>count >= existingCount\<close> and its count 2 is below 3.
\<close>

theorem kept_phrases_overlap:
  "TopKeywords title_sample =
     [(js ''Data Center'', 3), (js ''Center Engineer'', 3), (js ''Data Center Engineer'', 2)] \<and>
   str_includes (js ''Data Center Engineer'') (js ''Data Center'') \<and>
   str_includes (js ''data center engineer'') (js ''data center'') \<and>
   \<not> dominated_by [(js ''data center'', 3), (js ''center engineer'', 3)]
       (js ''data center engineer'') 2 [js ''data center'', js ''center engineer'']"
proof -
  have "\<not> dominated_by [(js ''data center'', 3), (js ''center engineer'', 3)]
       (js ''data center engineer'') 2 [js ''data center'', js ''center engineer'']"
    by (simp add: js_def existingCount_def)
  with sample_keywords sample_includes(1) sample_includes(2) show ?thesis by simp
qed

end
